theory Spec2Isabelle
  imports Main "HOL-Library.Char_ord" "HOL-Library.List_Lexorder"
begin

section \<open>Strings\<close>

text \<open>
  Python strings are modelled as \<^typ>\<open>string\<close>. Entity-type names, class names and
  directory ids are ASCII in this service, so \<open>str.lower\<close> and \<open>str.capitalize\<close> are
  modelled on the ASCII letters; every other character is left as it is.
\<close>

definition lower_char :: "char \<Rightarrow> char" where
  "lower_char c =
     (case map_of (zip ''ABCDEFGHIJKLMNOPQRSTUVWXYZ'' ''abcdefghijklmnopqrstuvwxyz'') c of
        Some d \<Rightarrow> d | None \<Rightarrow> c)"

definition upper_char :: "char \<Rightarrow> char" where
  "upper_char c =
     (case map_of (zip ''abcdefghijklmnopqrstuvwxyz'' ''ABCDEFGHIJKLMNOPQRSTUVWXYZ'') c of
        Some d \<Rightarrow> d | None \<Rightarrow> c)"

definition lower :: "string \<Rightarrow> string" where
  "lower s = map lower_char s"

definition capitalize :: "string \<Rightarrow> string" where
  "capitalize s = (case s of [] \<Rightarrow> [] | c # cs \<Rightarrow> upper_char c # lower cs)"

definition startswith :: "string \<Rightarrow> string \<Rightarrow> bool" where
  "startswith s p = (take (length p) s = p)"

definition removeprefix :: "string \<Rightarrow> string \<Rightarrow> string" where
  "removeprefix s p = (if startswith s p then drop (length p) s else s)"

section \<open>Entity model (app/concepts/collections.py)\<close>

text \<open>
  The catalog classes. \<open>CatalogObject\<close> itself is never instantiated; every class
  below inherits its \<open>ref_url\<close> field and declares \<open>id: str\<close>.
\<close>

datatype cls =
    BasePerson | Person | ExtendedPerson
  | BaseMailingList | MailingList | ExtendedMailingList
  | GitRepository | SubversionRepository
  | BaseProject | Project

definition cls_name :: "cls \<Rightarrow> string" where
  "cls_name c = (case c of
       BasePerson \<Rightarrow> ''BasePerson'' | Person \<Rightarrow> ''Person''
     | ExtendedPerson \<Rightarrow> ''ExtendedPerson''
     | BaseMailingList \<Rightarrow> ''BaseMailingList'' | MailingList \<Rightarrow> ''MailingList''
     | ExtendedMailingList \<Rightarrow> ''ExtendedMailingList''
     | GitRepository \<Rightarrow> ''GitRepository''
     | SubversionRepository \<Rightarrow> ''SubversionRepository''
     | BaseProject \<Rightarrow> ''BaseProject'' | Project \<Rightarrow> ''Project'')"

text \<open>The inheritance chain of a class, root first, the class itself last.\<close>

definition mro :: "cls \<Rightarrow> cls list" where
  "mro c = (case c of
       BasePerson \<Rightarrow> [BasePerson]
     | Person \<Rightarrow> [BasePerson, Person]
     | ExtendedPerson \<Rightarrow> [BasePerson, Person, ExtendedPerson]
     | BaseMailingList \<Rightarrow> [BaseMailingList]
     | MailingList \<Rightarrow> [BaseMailingList, MailingList]
     | ExtendedMailingList \<Rightarrow> [BaseMailingList, MailingList, ExtendedMailingList]
     | GitRepository \<Rightarrow> [GitRepository]
     | SubversionRepository \<Rightarrow> [SubversionRepository]
     | BaseProject \<Rightarrow> [BaseProject]
     | Project \<Rightarrow> [BaseProject, Project])"

definition isinstance :: "cls \<Rightarrow> cls \<Rightarrow> bool" where
  "isinstance c d = (d \<in> set (mro c))"

text \<open>
  The annotation of a field, as far as serialisation looks at it: a scalar
  (\<open>str\<close>, \<open>int\<close>, \<open>list[str]\<close>), one nested model, a list of nested models, or a
  list over a union of models.
\<close>

datatype ann = AScalar | AModel cls | AModelList cls | AUnionList "cls list"

text \<open>The fields each class body declares itself, in declaration order.\<close>

definition declared :: "cls \<Rightarrow> (string \<times> ann) list" where
  "declared c = (case c of
       BasePerson \<Rightarrow> [(''id'', AScalar), (''name'', AScalar)]
     | Person \<Rightarrow> [(''primary_email'', AScalar), (''projects'', AModelList BaseProject)]
     | ExtendedPerson \<Rightarrow> [(''account_created_ts'', AScalar), (''alternate_emails'', AScalar)]
     | BaseMailingList \<Rightarrow> [(''id'', AScalar)]
     | MailingList \<Rightarrow>
         [(''project'', AModel BaseProject), (''address'', AScalar), (''list_id'', AScalar)]
     | ExtendedMailingList \<Rightarrow> [(''moderators'', AScalar), (''subscribers'', AScalar)]
     | GitRepository \<Rightarrow>
         [(''id'', AScalar), (''sourceURL'', AScalar), (''mirrorURL'', AScalar),
          (''project'', AScalar)]
     | SubversionRepository \<Rightarrow>
         [(''id'', AScalar), (''sourceURL'', AScalar), (''project'', AScalar)]
     | BaseProject \<Rightarrow> [(''id'', AScalar), (''name'', AScalar), (''website'', AScalar)]
     | Project \<Rightarrow>
         [(''mailinglists'', AModelList BaseMailingList), (''chair'', AModel BasePerson),
          (''committers'', AModelList BasePerson), (''pmc_members'', AModelList BasePerson),
          (''repositories'', AUnionList [GitRepository, SubversionRepository])])"

definition schema :: "cls \<Rightarrow> (string \<times> ann) list" where
  "schema c = (''ref_url'', AScalar) # concat (map declared (mro c))"

definition fields_of :: "cls \<Rightarrow> string list" where
  "fields_of c = map fst (schema c)"

text \<open>
  Field values. A model held in a field is a reference into the object memory, since
  the collector mutates objects that are already linked from other objects.
\<close>

type_synonym addr = nat

datatype val = VNone | VStr string | VInt int | VList "val list" | VRef addr

text \<open>
  A catalog object: its class, the two fields every class has, and the remaining
  fields of its \<open>__dict__\<close> in order.
\<close>

record obj =
  o_cls :: cls
  o_ref_url :: "string option"
  o_id :: string
  o_attrs :: "(string \<times> val) list"

definition obj_dict :: "obj \<Rightarrow> (string \<times> val) list" where
  "obj_dict ob =
     (''ref_url'', (case o_ref_url ob of None \<Rightarrow> VNone | Some u \<Rightarrow> VStr u))
     # (''id'', VStr (o_id ob)) # o_attrs ob"

datatype error = KeyError | AttributeError | TypeError | IndexError | RecursionError

text \<open>
  \<open>getattr(entry, k)\<close> on the fields of the object; a name that is no field raises
  \<open>AttributeError\<close>. (Names of the methods that pydantic puts on every model are
  not part of the model.)
\<close>

definition getattr :: "obj \<Rightarrow> string \<Rightarrow> error + val" where
  "getattr ob k = (case map_of (obj_dict ob) k of None \<Rightarrow> Inl AttributeError | Some v \<Rightarrow> Inr v)"

section \<open>The catalog store (class Collection)\<close>

text \<open>
  A Python dict keeps insertion order; assigning to an existing key keeps the key's
  position. Buckets are association lists with that behaviour.
\<close>

fun dict_set :: "'k \<Rightarrow> 'v \<Rightarrow> ('k \<times> 'v) list \<Rightarrow> ('k \<times> 'v) list" where
  "dict_set k v [] = [(k, v)]"
| "dict_set k v (p # d) = (if fst p = k then (k, v) # d else p # dict_set k v d)"

definition dict_of :: "('k \<times> 'v) list \<Rightarrow> ('k \<times> 'v) list" where
  "dict_of kvs = foldl (\<lambda>d kv. dict_set (fst kv) (snd kv) d) [] kvs"

type_synonym bucket = "(string \<times> addr) list"

record world =
  heap :: "addr \<Rightarrow> obj"
  next_addr :: addr
  cache :: "string \<rightharpoonup> bucket"

datatype 'a res = Ok 'a world | Raise error world

text \<open>An entity type is named by a string or by a class object.\<close>

datatype tref = TStr string | TCls cls

definition shorthand :: "tref \<Rightarrow> string" where
  "shorthand object_type =
     removeprefix
       (lower (case object_type of TStr s \<Rightarrow> s | TCls c \<Rightarrow> cls_name c)) ''extended''"

text \<open>
  \<open>replace\<close>: the default \<open>obj_list=None\<close> cannot be iterated and raises; otherwise the
  bucket is assigned one freshly built dict.
\<close>

definition replace :: "tref \<Rightarrow> addr list option \<Rightarrow> world \<Rightarrow> unit res" where
  "replace object_type obj_list w =
     (let oid = shorthand object_type in
      case obj_list of
        None \<Rightarrow> Raise TypeError w
      | Some objs \<Rightarrow>
          Ok () (w\<lparr>cache := (cache w)(oid \<mapsto> dict_of (map (\<lambda>a. (o_id (heap w a), a)) objs))\<rparr>))"

definition add :: "addr \<Rightarrow> world \<Rightarrow> world" where
  "add object w =
     (let oid = shorthand (TCls (o_cls (heap w object)));
          b = (case cache w oid of None \<Rightarrow> [] | Some b \<Rightarrow> b)
      in w\<lparr>cache := (cache w)(oid \<mapsto> dict_set (o_id (heap w object)) object b)\<rparr>)"

text \<open>\<open>list\<close> uses its argument as the key as it is; a class object is never a key.\<close>

definition list_items :: "tref \<Rightarrow> world \<Rightarrow> addr list" where
  "list_items object_type w =
     (case object_type of
        TStr s \<Rightarrow> (case cache w s of None \<Rightarrow> [] | Some b \<Rightarrow> map snd b)
      | TCls c \<Rightarrow> [])"

subsection \<open>Equality of field values\<close>

text \<open>
  \<open>==\<close> on field values. Two references to the same object are equal. Two different
  models are equal when they have the same class and equal \<open>__dict__\<close>s (pydantic's
  \<open>BaseModel.__eq__\<close>); the comparison follows references, and objects that refer to
  each other can make it recurse until the interpreter raises \<open>RecursionError\<close>. The
  fuel counts nested model comparisons; running out of it is that error (\<open>None\<close>).
\<close>

definition recursion_limit :: nat where
  "recursion_limit = 1000"

fun val_eq :: "nat \<Rightarrow> (addr \<Rightarrow> obj) \<Rightarrow> val \<Rightarrow> val \<Rightarrow> bool option"
and list_eq :: "nat \<Rightarrow> (addr \<Rightarrow> obj) \<Rightarrow> val list \<Rightarrow> val list \<Rightarrow> bool option"
and dict_eq ::
  "nat \<Rightarrow> (addr \<Rightarrow> obj) \<Rightarrow> (string \<times> val) list \<Rightarrow> (string \<times> val) list \<Rightarrow> bool option"
where
  "val_eq n h VNone w = Some (w = VNone)"
| "val_eq n h (VStr s) w = Some (w = VStr s)"
| "val_eq n h (VInt i) w = Some (w = VInt i)"
| "val_eq n h (VList xs) w =
     (case w of
        VList ys \<Rightarrow> if length xs = length ys then list_eq n h xs ys else Some False
      | _ \<Rightarrow> Some False)"
| "val_eq n h (VRef a) w =
     (case w of
        VRef b \<Rightarrow>
          if a = b then Some True
          else (case n of
                  0 \<Rightarrow> None
                | Suc m \<Rightarrow>
                    if o_cls (h a) = o_cls (h b)
                       \<and> length (obj_dict (h a)) = length (obj_dict (h b))
                    then dict_eq m h (obj_dict (h a)) (obj_dict (h b))
                    else Some False)
      | _ \<Rightarrow> Some False)"
| "list_eq n h [] ys = Some True"
| "list_eq n h (x # xs) ys =
     (case ys of
        [] \<Rightarrow> Some False
      | y # ys' \<Rightarrow>
          (case val_eq n h x y of
             None \<Rightarrow> None
           | Some False \<Rightarrow> Some False
           | Some True \<Rightarrow> list_eq n h xs ys'))"
| "dict_eq n h [] d = Some True"
| "dict_eq n h (kv # r) d =
     (case map_of d (fst kv) of
        None \<Rightarrow> Some False
      | Some w \<Rightarrow>
          (case val_eq n h (snd kv) w of
             None \<Rightarrow> None
           | Some False \<Rightarrow> Some False
           | Some True \<Rightarrow> dict_eq n h r d))"

text \<open>\<open>x in xs\<close> on a list: the first element that is \<open>x\<close> or equals \<open>x\<close> decides.\<close>

fun py_in :: "(addr \<Rightarrow> obj) \<Rightarrow> val \<Rightarrow> val list \<Rightarrow> bool option" where
  "py_in h x [] = Some False"
| "py_in h x (y # ys) =
     (case val_eq recursion_limit h y x of
        None \<Rightarrow> None
      | Some True \<Rightarrow> Some True
      | Some False \<Rightarrow> py_in h x ys)"

subsection \<open>Point lookup and filtered lookup\<close>

text \<open>\<open>all(getattr(entry, k) == v for k, v in kwargs.items())\<close>, left to right.\<close>

fun all_match :: "(addr \<Rightarrow> obj) \<Rightarrow> obj \<Rightarrow> (string \<times> val) list \<Rightarrow> error + bool" where
  "all_match h entry [] = Inr True"
| "all_match h entry (kv # kwargs) =
     (case getattr entry (fst kv) of
        Inl e \<Rightarrow> Inl e
      | Inr x \<Rightarrow>
          (case val_eq recursion_limit h x (snd kv) of
             None \<Rightarrow> Inl RecursionError
           | Some False \<Rightarrow> Inr False
           | Some True \<Rightarrow> all_match h entry kwargs))"

fun first_match :: "(addr \<Rightarrow> obj) \<Rightarrow> (string \<times> val) list \<Rightarrow> addr list \<Rightarrow> error + addr option"
where
  "first_match h kwargs [] = Inr None"
| "first_match h kwargs (a # as) =
     (case all_match h (h a) kwargs of
        Inl e \<Rightarrow> Inl e
      | Inr True \<Rightarrow> Inr (Some a)
      | Inr False \<Rightarrow> first_match h kwargs as)"

text \<open>
  \<open>get\<close>: when \<open>id\<close> is the only keyword, the bucket is indexed (\<open>self._cache[oid]\<close>,
  which raises \<open>KeyError\<close> without a bucket, then \<open>.get(uid)\<close>, which raises
  \<open>TypeError\<close> on an unhashable key); otherwise the bucket, or an empty dict when
  there is none, is scanned. The result \<open>None\<close> is Python's \<open>None\<close>.
\<close>

definition get :: "tref \<Rightarrow> (string \<times> val) list \<Rightarrow> world \<Rightarrow> error + addr option" where
  "get object_type kwargs w =
     (let oid = shorthand object_type in
      if map fst kwargs = [''id''] then
        (case cache w oid of
           None \<Rightarrow> Inl KeyError
         | Some b \<Rightarrow>
             (case snd (hd kwargs) of
                VStr uid \<Rightarrow> Inr (map_of b uid)
              | VNone \<Rightarrow> Inr None
              | VInt i \<Rightarrow> Inr None
              | VList xs \<Rightarrow> Inl TypeError
              | VRef a \<Rightarrow> Inl TypeError))
      else
        first_match (heap w) kwargs (case cache w oid of None \<Rightarrow> [] | Some b \<Rightarrow> map snd b))"

text \<open>\<open>get_all\<close> is a generator; the model is the list it yields when run to its end.\<close>

fun all_matches :: "(addr \<Rightarrow> obj) \<Rightarrow> (string \<times> val) list \<Rightarrow> addr list \<Rightarrow> error + addr list"
where
  "all_matches h kwargs [] = Inr []"
| "all_matches h kwargs (a # as) =
     (case all_match h (h a) kwargs of
        Inl e \<Rightarrow> Inl e
      | Inr m \<Rightarrow>
          (case all_matches h kwargs as of
             Inl e \<Rightarrow> Inl e
           | Inr r \<Rightarrow> Inr (if m then a # r else r)))"

definition get_all :: "tref \<Rightarrow> (string \<times> val) list \<Rightarrow> world \<Rightarrow> error + addr list" where
  "get_all object_type kwargs w =
     all_matches (heap w) kwargs
       (case cache w (shorthand object_type) of None \<Rightarrow> [] | Some b \<Rightarrow> map snd b)"

subsection \<open>Sequences of store writes\<close>

datatype store_op = Replace tref "addr list option" | Add addr

definition apply_op :: "world \<Rightarrow> store_op \<Rightarrow> world" where
  "apply_op w op =
     (case op of
        Replace t rs \<Rightarrow> (case replace t rs w of Ok u w' \<Rightarrow> w' | Raise e w' \<Rightarrow> w')
      | Add a \<Rightarrow> add a w)"

definition key_consistent :: "world \<Rightarrow> bool" where
  "key_consistent w =
     (\<forall>t b k a. cache w t = Some b \<longrightarrow> (k, a) \<in> set b \<longrightarrow> o_id (heap w a) = k)"

section \<open>Object memory and construction\<close>

text \<open>
  New objects are placed at the next free address. Addresses that were never
  allocated hold a placeholder that nothing refers to.
\<close>

definition unallocated :: obj where
  "unallocated = \<lparr>o_cls = BaseProject, o_ref_url = None, o_id = [], o_attrs = []\<rparr>"

definition init_world :: world where
  "init_world = \<lparr>heap = (\<lambda>a. unallocated), next_addr = 0, cache = Map.empty\<rparr>"

definition alloc :: "obj \<Rightarrow> world \<Rightarrow> addr \<times> world" where
  "alloc ob w =
     (next_addr w, w\<lparr>heap := (heap w)(next_addr w := ob), next_addr := Suc (next_addr w)\<rparr>)"

text \<open>
  \<open>ExtendedPerson(id=.., name=.., primary_email=.., account_created_ts=..)\<close> and
  \<open>Project(id=.., name=.., website=.., chair=None)\<close>, every other field at its default.
\<close>

definition new_ExtendedPerson :: "string \<Rightarrow> string \<Rightarrow> string \<Rightarrow> int \<Rightarrow> obj" where
  "new_ExtendedPerson uid name primary_email account_created_ts =
     \<lparr>o_cls = ExtendedPerson, o_ref_url = None, o_id = uid,
      o_attrs = [(''name'', VStr name), (''primary_email'', VStr primary_email),
                 (''projects'', VList []), (''account_created_ts'', VInt account_created_ts),
                 (''alternate_emails'', VNone)]\<rparr>"

definition new_Project :: "string \<Rightarrow> string \<Rightarrow> string \<Rightarrow> obj" where
  "new_Project pid name website =
     \<lparr>o_cls = Project, o_ref_url = None, o_id = pid,
      o_attrs = [(''name'', VStr name), (''website'', VStr website),
                 (''mailinglists'', VList []), (''chair'', VNone),
                 (''committers'', VList []), (''pmc_members'', VList []),
                 (''repositories'', VList [])]\<rparr>"

text \<open>A store holding the single person \<open>jdoe\<close>, committed with \<open>replace("person", [jdoe])\<close>.\<close>

definition jdoe :: obj where
  "jdoe = new_ExtendedPerson ''jdoe'' ''Jane Doe'' ''jdoe@apache.org'' 1700000000"

definition world_of :: "'a res \<Rightarrow> world" where
  "world_of r = (case r of Ok x w \<Rightarrow> w | Raise e w \<Rightarrow> w)"

definition jdoe_world :: world where
  "jdoe_world =
     (let (a, w) = alloc jdoe init_world
      in world_of (replace (TStr ''person'') (Some [a]) w))"

section \<open>Serialisation of result sets (pydantic)\<close>

text \<open>
  What \<open>model_dump_json\<close> and \<open>dict\<close> produce. A field that pydantic would serialise
  by falling back to the runtime type of an ill-typed value is kept as \<open>JFallback\<close>
  with the value itself; that path is not followed further.
\<close>

datatype jv =
    JNull | JStr string | JInt int | JList "jv list" | JObj "(string \<times> jv) list"
  | JFallback val

text \<open>\<open>APP.config.hostname\<close>, set in \<open>create_app\<close>.\<close>

definition hostname :: string where
  "hostname = ''catalog-test.apache.org''"

text \<open>The field serialiser of \<open>ref_url\<close> (\<open>CatalogObject.make_ref\<close>).\<close>

definition make_ref :: "obj \<Rightarrow> string" where
  "make_ref self =
     (let my_id = o_id self;
          my_class = removeprefix (lower (cls_name (o_cls self))) ''extended''
      in ''https://'' @ hostname @ ''/lookup/'' @ my_class @ ''/'' @ my_id)"

fun scalar_json :: "val \<Rightarrow> jv" where
  "scalar_json VNone = JNull"
| "scalar_json (VStr s) = JStr s"
| "scalar_json (VInt i) = JInt i"
| "scalar_json (VList xs) = JList (map scalar_json xs)"
| "scalar_json (VRef a) = JFallback (VRef a)"

text \<open>
  Serialising an object as class \<open>C\<close> walks the object's \<open>__dict__\<close> and keeps the
  fields of \<open>C\<close>'s schema; the other entries are skipped. \<open>dump_leaf\<close> is the case of
  the classes used as nested annotations, whose own fields are all scalars.
\<close>

definition dump_leaf :: "cls \<Rightarrow> obj \<Rightarrow> (string \<times> jv) list" where
  "dump_leaf C ob =
     map (\<lambda>kv. (fst kv, if fst kv = ''ref_url'' then JStr (make_ref ob)
                        else scalar_json (snd kv)))
       (filter (\<lambda>kv. fst kv \<in> set (fields_of C)) (obj_dict ob))"

text \<open>
  A value annotated with a union of models: the members are tried in order, first
  for the member that is the object's own class, then for the first member the
  object is an instance of; an object that fits no member is serialised by its own
  class.
\<close>

definition union_choice :: "cls list \<Rightarrow> cls \<Rightarrow> cls" where
  "union_choice u c =
     (case find (\<lambda>d. d = c) u of
        Some d \<Rightarrow> d
      | None \<Rightarrow> (case find (isinstance c) u of Some d \<Rightarrow> d | None \<Rightarrow> c))"

definition ser_item :: "(addr \<Rightarrow> obj) \<Rightarrow> (cls \<Rightarrow> cls) \<Rightarrow> val \<Rightarrow> jv" where
  "ser_item h pick x =
     (case x of VRef a \<Rightarrow> JObj (dump_leaf (pick (o_cls (h a))) (h a)) | _ \<Rightarrow> scalar_json x)"

definition ser_field :: "(addr \<Rightarrow> obj) \<Rightarrow> ann \<Rightarrow> val \<Rightarrow> jv" where
  "ser_field h a v =
     (case a of
        AScalar \<Rightarrow> scalar_json v
      | AModel C \<Rightarrow> ser_item h (\<lambda>c. C) v
      | AModelList C \<Rightarrow>
          (case v of VList xs \<Rightarrow> JList (map (ser_item h (\<lambda>c. C)) xs) | _ \<Rightarrow> scalar_json v)
      | AUnionList u \<Rightarrow>
          (case v of VList xs \<Rightarrow> JList (map (ser_item h (union_choice u)) xs)
           | _ \<Rightarrow> scalar_json v))"

definition dump :: "(addr \<Rightarrow> obj) \<Rightarrow> cls \<Rightarrow> obj \<Rightarrow> (string \<times> jv) list" where
  "dump h C ob =
     map (\<lambda>kv. (fst kv,
                if fst kv = ''ref_url'' then JStr (make_ref ob)
                else ser_field h (case map_of (schema C) (fst kv) of
                                    Some a \<Rightarrow> a | None \<Rightarrow> AScalar) (snd kv)))
       (filter (\<lambda>kv. fst kv \<in> set (fields_of C)) (obj_dict ob))"

definition ANY_CLASS :: "cls list" where
  "ANY_CLASS =
     [ExtendedPerson, Person, BasePerson, ExtendedMailingList, MailingList, GitRepository,
      SubversionRepository, Project, BaseProject]"

definition ANY_PUBLIC_CLASS :: "cls list" where
  "ANY_PUBLIC_CLASS =
     [Person, BasePerson, MailingList, GitRepository, SubversionRepository, Project,
      BaseProject]"

text \<open>\<open>ResultSet\<close> and \<open>PublicResultSet\<close> as serialised.\<close>

record envelope =
  results :: "jv list"
  no_results :: nat

section \<open>The lookup route (app/renderers/lookup.py)\<close>

datatype response =
    SchemaOf "cls list"
  | Html envelope
  | Json envelope
  | BadRequest string

text \<open>
  \<open>entry.dict(include=query.keys())\<close> followed by
  \<open>all(entry_as_dict.get(k) == v for k, v in query.items())\<close>. The request's form data
  maps strings to strings.
\<close>

definition entry_matches :: "(addr \<Rightarrow> obj) \<Rightarrow> obj \<Rightarrow> (string \<times> string) list \<Rightarrow> bool" where
  "entry_matches h entry query =
     (let entry_as_dict =
            filter (\<lambda>kv. fst kv \<in> fst ` set query) (dump h (o_cls entry) entry)
      in list_all (\<lambda>kv. map_of entry_as_dict (fst kv) = Some (JStr (snd kv))) query)"

definition lookup_public ::
  "string \<Rightarrow> string option \<Rightarrow> (string \<times> string) list \<Rightarrow> bool \<Rightarrow> world \<Rightarrow> response" where
  "lookup_public type_name uid formdata accepts_html w =
     (let query0 = (case uid of
                      None \<Rightarrow> formdata
                    | Some u \<Rightarrow> if u \<noteq> [] then dict_set ''id'' u formdata else formdata);
          dtype = lower type_name;
          anonymous_data_only =
            (case map_of query0 ''anonymous'' of None \<Rightarrow> False | Some v \<Rightarrow> v \<noteq> ''??'');
          query = filter (\<lambda>kv. fst kv \<noteq> ''anonymous'') query0;
          target = list_items (TStr dtype) w
      in if target \<noteq> [] then
           (let accepted = (if anonymous_data_only then ANY_PUBLIC_CLASS else ANY_CLASS);
                matched = filter (\<lambda>a. entry_matches (heap w) (heap w a) query) target;
                result_set =
                  \<lparr>results =
                     map (\<lambda>a. JObj (dump (heap w) (union_choice accepted (o_cls (heap w a)))
                                     (heap w a))) matched,
                   no_results = length matched\<rparr>
            in if ''schema'' \<in> fst ` set query then SchemaOf accepted
               else if accepts_html then Html result_set
               else Json result_set)
         else BadRequest (''No such object type, '' @ dtype))"

text \<open>
  The lower tier the specification assigns to a class at public visibility: the
  Extended classes go to their public parent, every other class stays.
\<close>

definition lower_tier :: "cls \<Rightarrow> cls" where
  "lower_tier c =
     (case c of ExtendedPerson \<Rightarrow> Person | ExtendedMailingList \<Rightarrow> MailingList | _ \<Rightarrow> c)"

text \<open>An object built by its class: its \<open>__dict__\<close> has the fields of the class, in order.\<close>

definition wf_obj :: "obj \<Rightarrow> bool" where
  "wf_obj ob = (map fst (obj_dict ob) = fields_of (o_cls ob))"

text \<open>A store whose person bucket exists and is empty.\<close>

definition empty_person_world :: world where
  "empty_person_world = world_of (replace (TStr ''person'') (Some []) init_world)"

section \<open>The directory collector (app/collectors/ldap.py)\<close>

text \<open>A directory search returns entries that map attribute names to lists of strings.\<close>

type_synonym ldap_entry = "(string \<times> string list) list"

text \<open>
  \<open>short_uid\<close> matches \<open>^(?:uid=)?([^,]+).*$\<close> at the start of the string and returns
  group 1, or the string itself when there is no match. After the optional prefix
  the group is the longest run of characters other than a comma; it must not be
  empty, and what follows it must not contain a newline before its last character.
  When the attempt that consumes \<open>uid=\<close> fails, the prefix is left to the group.
\<close>

definition uid_group :: "string \<Rightarrow> string option" where
  "uid_group r =
     (let g = takeWhile (\<lambda>c. c \<noteq> CHR '','') r;
          rest = dropWhile (\<lambda>c. c \<noteq> CHR '','') r
      in if g \<noteq> [] \<and> CHR 0x0A \<notin> set (butlast rest) then Some g else None)"

definition short_uid :: "string \<Rightarrow> string" where
  "short_uid uid =
     (case (if startswith uid ''uid='' then uid_group (drop 4 uid) else None) of
        Some g \<Rightarrow> g
      | None \<Rightarrow> (case uid_group uid of Some g \<Rightarrow> g | None \<Rightarrow> uid))"

text \<open>\<open>result[k][0]\<close>.\<close>

definition item0 :: "ldap_entry \<Rightarrow> string \<Rightarrow> error + string" where
  "item0 result k =
     (case map_of result k of
        None \<Rightarrow> Inl KeyError
      | Some vs \<Rightarrow> (case vs of [] \<Rightarrow> Inl IndexError | v # _ \<Rightarrow> Inr v))"

text \<open>
  \<open>find_people\<close>. The clock is read once per person; the model takes one reading
  \<open>now\<close> for the pass.
\<close>

fun people_loop :: "ldap_entry list \<Rightarrow> int \<Rightarrow> addr list \<Rightarrow> world \<Rightarrow> (addr list) res" where
  "people_loop [] now people w = Ok people w"
| "people_loop (result # entries) now people w =
     (if map_of result ''uid'' = None then people_loop entries now people w
      else
        (case item0 result ''uid'' of
           Inl e \<Rightarrow> Raise e w
         | Inr uid \<Rightarrow>
             (case item0 result ''cn'' of
                Inl e \<Rightarrow> Raise e w
              | Inr cn \<Rightarrow>
                  (case item0 result ''asf-committer-email'' of
                     Inl e \<Rightarrow> Raise e w
                   | Inr email \<Rightarrow>
                       (let (person, w') = alloc (new_ExtendedPerson uid cn email now) w
                        in people_loop entries now (people @ [person]) w')))))"

definition find_people :: "ldap_entry list \<Rightarrow> int \<Rightarrow> world \<Rightarrow> unit res" where
  "find_people entries now w =
     (case people_loop entries now [] w of
        Raise e w' \<Rightarrow> Raise e w'
      | Ok people w' \<Rightarrow> replace (TStr ''person'') (Some people) w')"

text \<open>Assignment to a field of an object, and \<open>obj.field.append(v)\<close>.\<close>

definition set_attr :: "addr \<Rightarrow> string \<Rightarrow> val \<Rightarrow> world \<Rightarrow> world" where
  "set_attr a k v w =
     w\<lparr>heap := (heap w)(a := (heap w a)\<lparr>o_attrs := dict_set k v (o_attrs (heap w a))\<rparr>)\<rparr>"

definition attr_append :: "addr \<Rightarrow> string \<Rightarrow> val \<Rightarrow> world \<Rightarrow> unit res" where
  "attr_append a k v w =
     (case getattr (heap w a) k of
        Inl e \<Rightarrow> Raise e w
      | Inr x \<Rightarrow>
          (case x of
             VList xs \<Rightarrow> Ok () (set_attr a k (VList (xs @ [v])) w)
           | _ \<Rightarrow> Raise AttributeError w))"

text \<open>
  The body both reference loops of \<open>find_projects\<close> share, for a non-empty short id:
  \<^verbatim>\<open>
  person = app.collectors.collection.get("person", id=asfid)
  project.<member_list>.append(person)
  if project not in person.projects:
      person.projects.append(project)
  \<close>
  \<open>get\<close> returns \<open>None\<close> for an id that is not in the bucket; \<open>None\<close> is appended to
  the list and \<open>None.projects\<close> then raises \<open>AttributeError\<close>.
\<close>

definition link :: "addr \<Rightarrow> string \<Rightarrow> string \<Rightarrow> world \<Rightarrow> addr res" where
  "link project member_list asfid w =
     (case get (TStr ''person'') [(''id'', VStr asfid)] w of
        Inl e \<Rightarrow> Raise e w
      | Inr person \<Rightarrow>
          (case attr_append project member_list
                  (case person of None \<Rightarrow> VNone | Some a \<Rightarrow> VRef a) w of
             Raise e w1 \<Rightarrow> Raise e w1
           | Ok u w1 \<Rightarrow>
               (case person of
                  None \<Rightarrow> Raise AttributeError w1
                | Some a \<Rightarrow>
                    (case getattr (heap w1 a) ''projects'' of
                       Inl e \<Rightarrow> Raise e w1
                     | Inr x \<Rightarrow>
                         (case x of
                            VList ps \<Rightarrow>
                              (case py_in (heap w1) (VRef project) ps of
                                 None \<Rightarrow> Raise RecursionError w1
                               | Some True \<Rightarrow> Ok a w1
                               | Some False \<Rightarrow>
                                   (case attr_append a ''projects'' (VRef project) w1 of
                                      Raise e w2 \<Rightarrow> Raise e w2
                                    | Ok u w2 \<Rightarrow> Ok a w2))
                          | VRef b \<Rightarrow> Raise AttributeError w1
                          | _ \<Rightarrow> Raise TypeError w1)))))"

fun members_loop :: "addr \<Rightarrow> string list \<Rightarrow> world \<Rightarrow> unit res" where
  "members_loop project [] w = Ok () w"
| "members_loop project (uid # uids) w =
     (let asfid = short_uid uid in
      if asfid \<noteq> [] then
        (case link project ''committers'' asfid w of
           Raise e w' \<Rightarrow> Raise e w'
         | Ok person w' \<Rightarrow> members_loop project uids w')
      else members_loop project uids w)"

fun owners_loop :: "addr \<Rightarrow> string list \<Rightarrow> addr option \<Rightarrow> world \<Rightarrow> (addr option) res" where
  "owners_loop project [] first_person w = Ok first_person w"
| "owners_loop project (uid # uids) first_person w =
     (let asfid = short_uid uid in
      if asfid \<noteq> [] then
        (case link project ''pmc_members'' asfid w of
           Raise e w' \<Rightarrow> Raise e w'
         | Ok person w' \<Rightarrow>
             owners_loop project uids
               (if first_person = None then Some person else first_person) w')
      else owners_loop project uids first_person w)"

definition refs_of :: "ldap_entry \<Rightarrow> string \<Rightarrow> string list" where
  "refs_of result k = (case map_of result k of None \<Rightarrow> [] | Some us \<Rightarrow> us)"

text \<open>One round of the loop over the sorted results.\<close>

definition project_step :: "ldap_entry \<Rightarrow> addr list \<Rightarrow> world \<Rightarrow> (addr list) res" where
  "project_step result projects w =
     (if map_of result ''cn'' = None then Ok projects w
      else
        (case item0 result ''cn'' of
           Inl e \<Rightarrow> Raise e w
         | Inr cn \<Rightarrow>
             (let prname = capitalize cn;
                  (project, w1) =
                     alloc (new_Project cn (''Apache '' @ prname)
                              (''https://'' @ cn @ ''.apache.org'')) w
              in case members_loop project (refs_of result ''member'') w1 of
                   Raise e w2 \<Rightarrow> Raise e w2
                 | Ok u w2 \<Rightarrow>
                     (case owners_loop project (refs_of result ''owner'') None w2 of
                        Raise e w3 \<Rightarrow> Raise e w3
                      | Ok first_person w3 \<Rightarrow>
                          (let projects' = projects @ [project];
                               w4 = set_attr project ''chair''
                                      (case first_person of None \<Rightarrow> VNone | Some a \<Rightarrow> VRef a)
                                      w3
                           in case replace (TStr ''project'') (Some projects') w4 of
                                Raise e w5 \<Rightarrow> Raise e w5
                              | Ok u w5 \<Rightarrow> Ok projects' w5)))))"

fun projects_loop :: "ldap_entry list \<Rightarrow> addr list \<Rightarrow> world \<Rightarrow> (addr list) res" where
  "projects_loop [] projects w = Ok projects w"
| "projects_loop (result # entries) projects w =
     (case project_step result projects w of
        Raise e w' \<Rightarrow> Raise e w'
      | Ok projects' w' \<Rightarrow> projects_loop entries projects' w')"

text \<open>
  The sort key \<open>x.get("cn", ["??"])[0]\<close>; \<open>sorted\<close> computes it for every result
  before it orders them, and is stable.
\<close>

definition cn_key :: "ldap_entry \<Rightarrow> error + string" where
  "cn_key x = (case map_of x ''cn'' of None \<Rightarrow> Inr ''??'' | Some vs \<Rightarrow> item0 x ''cn'')"

definition cn_key_of :: "ldap_entry \<Rightarrow> string" where
  "cn_key_of x = (case cn_key x of Inr k \<Rightarrow> k | Inl e \<Rightarrow> [])"

definition find_projects :: "ldap_entry list \<Rightarrow> world \<Rightarrow> unit res" where
  "find_projects entries w =
     (if \<exists>x \<in> set entries. cn_key x = Inl IndexError then Raise IndexError w
      else
        (case projects_loop (sort_key cn_key_of entries) [] w of
           Raise e w' \<Rightarrow> Raise e w'
         | Ok projects w' \<Rightarrow> replace (TStr ''project'') (Some projects) w'))"

definition error_of :: "'a res \<Rightarrow> error option" where
  "error_of r = (case r of Ok x w \<Rightarrow> None | Raise e w \<Rightarrow> Some e)"

text \<open>
  The short ids of the owner references that the loop acts on, and the results that
  become projects.
\<close>

definition owner_ids :: "ldap_entry \<Rightarrow> string list" where
  "owner_ids result = filter (\<lambda>s. s \<noteq> []) (map short_uid (refs_of result ''owner''))"

definition project_entries :: "ldap_entry list \<Rightarrow> ldap_entry list" where
  "project_entries entries =
     filter (\<lambda>r. map_of r ''cn'' \<noteq> None) (sort_key cn_key_of entries)"

text \<open>
  The chair rule for the object \<open>P\<close> built from a result, with references resolved
  in the person bucket of \<open>w\<close>: no chair when no owner reference has a non-empty short
  id, otherwise the person stored under the first such id; a chair is listed in
  \<open>pmc_members\<close>.
\<close>

definition chair_rule :: "world \<Rightarrow> ldap_entry \<Rightarrow> obj \<Rightarrow> bool" where
  "chair_rule w result P =
     ((case owner_ids result of
         [] \<Rightarrow> getattr P ''chair'' = Inr VNone
       | uid # uids \<Rightarrow>
           (\<exists>a. get (TStr ''person'') [(''id'', VStr uid)] w = Inr (Some a)
                \<and> getattr P ''chair'' = Inr (VRef a)))
      \<and> (\<forall>a. getattr P ''chair'' = Inr (VRef a) \<longrightarrow>
             (\<exists>pm. getattr P ''pmc_members'' = Inr (VList pm) \<and> VRef a \<in> set pm)))"

section \<open>What an anonymous lookup may show\<close>

text \<open>
  The query the route filters with: the form data, with \<open>id\<close> set from the path when
  a uid is given, and without the \<open>anonymous\<close> key.
\<close>

definition request_query :: "string option \<Rightarrow> (string \<times> string) list \<Rightarrow> (string \<times> string) list"
where
  "request_query uid formdata =
     filter (\<lambda>kv. fst kv \<noteq> ''anonymous'')
       (case uid of
          None \<Rightarrow> formdata
        | Some u \<Rightarrow> if u \<noteq> [] then dict_set ''id'' u formdata else formdata)"

text \<open>The field names that only an Extended class has.\<close>

definition extended_only_fields :: "string list" where
  "extended_only_fields =
     concat (map (\<lambda>c. filter (\<lambda>k. k \<notin> set (fields_of (lower_tier c))) (fields_of c))
               [BasePerson, Person, ExtendedPerson, BaseMailingList, MailingList,
                ExtendedMailingList, GitRepository, SubversionRepository, BaseProject,
                Project])"

text \<open>
  Every field name that occurs in a serialised value, at any depth, and whether some
  part of it was left to the fallback.
\<close>

fun json_keys :: "jv \<Rightarrow> string list" where
  "json_keys (JList xs) = concat (map json_keys xs)"
| "json_keys (JObj kvs) = map fst kvs @ concat (map (\<lambda>kv. json_keys (snd kv)) kvs)"
| "json_keys JNull = []"
| "json_keys (JStr s) = []"
| "json_keys (JInt i) = []"
| "json_keys (JFallback v) = []"

fun has_fallback :: "jv \<Rightarrow> bool" where
  "has_fallback (JList xs) = list_ex has_fallback xs"
| "has_fallback (JObj kvs) = list_ex (\<lambda>kv. has_fallback (snd kv)) kvs"
| "has_fallback JNull = False"
| "has_fallback (JStr s) = False"
| "has_fallback (JInt i) = False"
| "has_fallback (JFallback v) = True"

text \<open>
  What validation by the class gives for the fields of an object: a field with a
  scalar annotation holds no model, a nested model is an instance of a class the
  annotation accepts, and the fields it is shown with hold scalars.
\<close>

fun scalar_val :: "val \<Rightarrow> bool" where
  "scalar_val VNone = True"
| "scalar_val (VStr s) = True"
| "scalar_val (VInt i) = True"
| "scalar_val (VList xs) = list_all scalar_val xs"
| "scalar_val (VRef a) = False"

definition leaf_scalars :: "cls \<Rightarrow> obj \<Rightarrow> bool" where
  "leaf_scalars C ob =
     list_all (\<lambda>kv. fst kv \<in> set (fields_of C) \<longrightarrow> scalar_val (snd kv)) (obj_dict ob)"

definition item_typed :: "(addr \<Rightarrow> obj) \<Rightarrow> (cls \<Rightarrow> cls) \<Rightarrow> cls list \<Rightarrow> val \<Rightarrow> bool" where
  "item_typed h pick u x =
     (case x of
        VRef b \<Rightarrow> list_ex (isinstance (o_cls (h b))) u \<and> leaf_scalars (pick (o_cls (h b))) (h b)
      | _ \<Rightarrow> scalar_val x)"

definition field_typed :: "(addr \<Rightarrow> obj) \<Rightarrow> ann \<Rightarrow> val \<Rightarrow> bool" where
  "field_typed h a v =
     (case a of
        AScalar \<Rightarrow> scalar_val v
      | AModel C \<Rightarrow> item_typed h (\<lambda>c. C) [C] v
      | AModelList C \<Rightarrow>
          (case v of VList xs \<Rightarrow> list_all (item_typed h (\<lambda>c. C) [C]) xs | _ \<Rightarrow> scalar_val v)
      | AUnionList u \<Rightarrow>
          (case v of VList xs \<Rightarrow> list_all (item_typed h (union_choice u) u) xs
           | _ \<Rightarrow> scalar_val v))"

definition well_typed :: "(addr \<Rightarrow> obj) \<Rightarrow> obj \<Rightarrow> bool" where
  "well_typed h ob =
     list_all (\<lambda>kv. case map_of (schema (o_cls ob)) (fst kv) of
                      None \<Rightarrow> True
                    | Some a \<Rightarrow> field_typed h a (snd kv))
       (obj_dict ob)"

text \<open>
  The store after one more collector pass over \<open>jdoe_world\<close>: the project \<open>foo\<close> with
  \<open>jdoe\<close> as its member and owner.
\<close>

definition foo_world :: world where
  "foo_world =
     world_of (find_projects
       [[(''cn'', [''foo'']), (''member'', [''jdoe'']), (''owner'', [''jdoe''])]] jdoe_world)"

section \<open>Properties of the store\<close>

lemma shorthand_forms:
  "shorthand (TStr ''person'') = ''person''"
  "shorthand (TStr ''Person'') = ''person''"
  "shorthand (TStr ''ExtendedPerson'') = ''person''"
  "shorthand (TStr ''project'') = ''project''"
  "shorthand (TCls ExtendedPerson) = ''person''"
  "shorthand (TCls Project) = ''project''"
  by (simp_all add: shorthand_def lower_def lower_char_def removeprefix_def startswith_def
      cls_name_def)

lemma map_of_dict_set: "map_of (dict_set k v d) = (map_of d)(k \<mapsto> v)"
  by (induction d) auto

lemma keys_dict_set: "fst ` set (dict_set k v d) = insert k (fst ` set d)"
  by (induction d) auto

lemma distinct_dict_set: "distinct (map fst d) \<Longrightarrow> distinct (map fst (dict_set k v d))"
  by (induction d) (auto simp: keys_dict_set)

lemma set_dict_set: "set (dict_set k v d) \<subseteq> insert (k, v) (set d)"
  by (induction d) auto

lemma foldl_dict_set_map_of:
  "map_of (foldl (\<lambda>d kv. dict_set (fst kv) (snd kv) d) d0 kvs) = map_of d0 ++ map_of (rev kvs)"
  by (induction kvs arbitrary: d0)
     (auto simp: map_of_dict_set fun_eq_iff map_add_def split: option.splits)

lemma foldl_dict_set_distinct:
  "distinct (map fst d0) \<Longrightarrow>
   distinct (map fst (foldl (\<lambda>d kv. dict_set (fst kv) (snd kv) d) d0 kvs))"
  by (induction kvs arbitrary: d0) (auto simp: distinct_dict_set)

lemma map_of_dict_of: "map_of (dict_of kvs) = map_of (rev kvs)"
  by (simp add: dict_of_def foldl_dict_set_map_of)

lemma distinct_dict_of: "distinct (map fst (dict_of kvs))"
  by (simp add: dict_of_def foldl_dict_set_distinct)

lemma dict_of_entry_iff: "(k, v) \<in> set (dict_of kvs) \<longleftrightarrow> map_of (rev kvs) k = Some v"
  using map_of_eq_Some_iff [OF distinct_dict_of, of kvs k v] by (simp add: map_of_dict_of)

lemma dict_of_subset: "set (dict_of kvs) \<subseteq> set kvs"
proof
  fix p assume "p \<in> set (dict_of kvs)"
  then have "map_of (rev kvs) (fst p) = Some (snd p)"
    using dict_of_entry_iff [of "fst p" "snd p" kvs] by simp
  then have "(fst p, snd p) \<in> set (rev kvs)" by (rule map_of_SomeD)
  then show "p \<in> set kvs" by simp
qed

lemma dict_of_keys: "fst ` set (dict_of kvs) = fst ` set kvs"
proof -
  have "dom (map_of (dict_of kvs)) = dom (map_of (rev kvs))" by (simp add: map_of_dict_of)
  then show ?thesis by (simp add: dom_map_of_conv_image_fst)
qed

lemma jdoe_world_eval:
  "jdoe_world =
     \<lparr>heap = (\<lambda>a. unallocated)(0 := jdoe), next_addr = Suc 0,
      cache = [''person'' \<mapsto> [(''jdoe'', 0)]]\<rparr>"
  by (simp add: jdoe_world_def alloc_def init_world_def world_of_def replace_def dict_of_def
      shorthand_forms jdoe_def new_ExtendedPerson_def)

text \<open>The store \<open>jdoe_world\<close> is what \<open>find_people\<close> commits for a directory with one account.\<close>

lemma find_people_jdoe:
  "world_of (find_people
      [[(''uid'', [''jdoe'']), (''cn'', [''Jane Doe'']),
        (''asf-committer-email'', [''jdoe@apache.org''])],
       [(''cn'', [''no account''])]] 1700000000 init_world) = jdoe_world"
  by (simp add: find_people_def item0_def alloc_def jdoe_world_def jdoe_def world_of_def
      replace_def init_world_def)

text \<open>
  C3. \<open>replace(t, rs)\<close> with a list always succeeds and assigns the bucket of \<open>t\<close> once:
  the new bucket has one entry per id occurring in \<open>rs\<close>, the entry of an id is the
  last record of \<open>rs\<close> with that id, and it is built from \<open>rs\<close> alone, so nothing of
  the bucket's earlier contents is in it. The store after the call differs from the
  store before it in that one bucket only, and \<open>list\<close> on the bucket returns exactly
  the new entries; a read sees the store before the assignment or after it.
\<close>

theorem replace_installs_bucket:
  "\<exists>w' b. replace t (Some rs) w = Ok () w'
      \<and> cache w' (shorthand t) = Some b
      \<and> distinct (map fst b)
      \<and> (\<forall>k a. (k, a) \<in> set b \<longleftrightarrow>
                 map_of (rev (map (\<lambda>r. (o_id (heap w r), r)) rs)) k = Some a)
      \<and> fst ` set b = (\<lambda>r. o_id (heap w r)) ` set rs
      \<and> list_items (TStr (shorthand t)) w' = map snd b
      \<and> (\<forall>s. s \<noteq> shorthand t \<longrightarrow> cache w' s = cache w s)
      \<and> heap w' = heap w"
  by (simp add: replace_def list_items_def distinct_dict_of dict_of_entry_iff dict_of_keys
      image_image)

theorem replace_installs_bucket_witness:
  "\<exists>w' b. replace (TStr ''Person'') (Some [0, 0]) jdoe_world = Ok () w'
      \<and> cache w' ''person'' = Some b \<and> b = [(''jdoe'', 0)]
      \<and> list_items (TStr ''person'') w' = [0]"
  using replace_installs_bucket [of "TStr ''Person''" "[0, 0]" jdoe_world]
  by (simp add: jdoe_world_eval replace_def dict_of_def list_items_def shorthand_forms
      jdoe_def new_ExtendedPerson_def)

text \<open>
  C4. The store operations do not all resolve a type name the same way. After
  \<open>replace("person", [jdoe])\<close>, \<open>get\<close> finds \<open>jdoe\<close> under \<open>"Person"\<close> and under
  \<open>"ExtendedPerson"\<close>, but \<open>list\<close> looks its argument up as it is and returns the
  empty tuple for both spellings and for the class object. The lookup route, which
  lower-cases the name and calls \<open>list\<close>, answers \<open>ExtendedPerson\<close> with "No such
  object type".
\<close>

theorem list_ignores_type_spelling:
  "list_items (TStr ''person'') jdoe_world = [0]
   \<and> get (TStr ''Person'') [(''id'', VStr ''jdoe'')] jdoe_world = Inr (Some 0)
   \<and> get (TStr ''ExtendedPerson'') [(''id'', VStr ''jdoe'')] jdoe_world = Inr (Some 0)
   \<and> list_items (TStr ''Person'') jdoe_world = []
   \<and> list_items (TStr ''ExtendedPerson'') jdoe_world = []
   \<and> list_items (TCls ExtendedPerson) jdoe_world = []
   \<and> lookup_public ''ExtendedPerson'' None [] False jdoe_world
       = BadRequest ''No such object type, extendedperson''"
  by code_simp

text \<open>
  C8. \<open>get(t, id=i)\<close> indexes the bucket with \<open>self._cache[oid]\<close>: on a store without a
  bucket for \<open>t\<close> it raises \<open>KeyError\<close> instead of returning \<open>None\<close>.
\<close>

theorem get_without_bucket_raises:
  "get (TStr ''person'') [(''id'', VStr ''jdoe'')] init_world = Inl KeyError"
  by (simp add: get_def init_world_def)

lemma heap_apply_op: "heap (apply_op w op) = heap w"
  by (auto simp: apply_op_def replace_def add_def Let_def split: store_op.splits option.splits)

lemma key_consistent_apply_op:
  assumes "key_consistent w"
  shows "key_consistent (apply_op w op)"
proof (cases op)
  case (Replace t rs)
  show ?thesis
  proof (cases rs)
    case None
    with Replace assms show ?thesis by (simp add: apply_op_def replace_def)
  next
    case (Some objs)
    have sub: "\<And>k a. (k, a) \<in> set (dict_of (map (\<lambda>r. (o_id (heap w r), r)) objs))
                 \<Longrightarrow> o_id (heap w a) = k"
      using dict_of_subset by fastforce
    from Replace Some assms show ?thesis
      unfolding key_consistent_def apply_op_def replace_def
      by (auto simp: Let_def dest: sub split: if_splits)
  qed
next
  case (Add x)
  have sub: "\<And>k a b. (k, a) \<in> set (dict_set (o_id (heap w x)) x b)
               \<Longrightarrow> (k, a) = (o_id (heap w x), x) \<or> (k, a) \<in> set b"
    using set_dict_set by fastforce
  from Add assms show ?thesis
    unfolding key_consistent_def apply_op_def add_def
    by (auto simp: Let_def dest!: sub split: if_splits option.splits)
qed

lemma key_consistent_foldl:
  "key_consistent w \<Longrightarrow> key_consistent (foldl apply_op w ops)"
  by (induction ops arbitrary: w) (auto simp: key_consistent_apply_op)

text \<open>
  C10. Starting from a store without buckets, after any sequence of \<open>replace\<close> and
  \<open>add\<close> calls every entry of every bucket is stored under the \<open>id\<close> of its record.
\<close>

theorem store_keys_are_ids:
  assumes "cache w0 = Map.empty"
  shows "key_consistent (foldl apply_op w0 ops)"
proof -
  have "key_consistent w0" using assms by (simp add: key_consistent_def)
  then show ?thesis by (rule key_consistent_foldl)
qed

theorem store_keys_are_ids_witness:
  "cache init_world = Map.empty
   \<and> key_consistent
       (foldl apply_op init_world [Add 0, Replace (TStr ''person'') (Some [0, 1]), Add 1])"
proof -
  have e: "cache init_world = Map.empty" by (simp add: init_world_def)
  show ?thesis
    using e store_keys_are_ids
      [OF e, of "[Add 0, Replace (TStr ''person'') (Some [0, 1]), Add 1]"]
    by blast
qed

section \<open>Properties of the lookup\<close>

lemma public_choice: "union_choice ANY_PUBLIC_CLASS c = lower_tier c"
  by (cases c) (simp_all add: union_choice_def ANY_PUBLIC_CLASS_def lower_tier_def isinstance_def mro_def)

lemma full_choice: "union_choice ANY_CLASS c = c"
  by (cases c) (simp_all add: union_choice_def ANY_CLASS_def isinstance_def mro_def)

lemma fields_lower_tier_subset: "set (fields_of (lower_tier c)) \<subseteq> set (fields_of c)"
  by (cases c) (auto simp: lower_tier_def fields_of_def schema_def mro_def declared_def)

lemma schema_lower_tier:
  "k \<in> set (fields_of (lower_tier c)) \<Longrightarrow> map_of (schema (lower_tier c)) k = map_of (schema c) k"
  by (cases c) (auto simp: lower_tier_def fields_of_def schema_def mro_def declared_def)

lemma map_of_map_filter:
  "map_of (map (\<lambda>kv. (fst kv, g (fst kv) (snd kv))) (filter (\<lambda>kv. fst kv \<in> S) d)) k =
     (if k \<in> S then map_option (g k) (map_of d k) else None)"
  by (induction d) auto

lemma dump_lookup:
  "map_of (dump h C ob) k =
     (if k \<in> set (fields_of C)
      then map_option
             (\<lambda>v. if k = ''ref_url'' then JStr (make_ref ob)
                  else ser_field h (case map_of (schema C) k of Some a \<Rightarrow> a | None \<Rightarrow> AScalar) v)
             (map_of (obj_dict ob) k)
      else None)"
  unfolding dump_def
  by (rule map_of_map_filter
      [where g = "\<lambda>k v. if k = ''ref_url'' then JStr (make_ref ob)
                  else ser_field h (case map_of (schema C) k of Some a \<Rightarrow> a | None \<Rightarrow> AScalar) v"])

lemma dump_keys: "map fst (dump h C ob) = filter (\<lambda>k. k \<in> set (fields_of C)) (map fst (obj_dict ob))"
  by (simp add: dump_def filter_map comp_def)

lemma dump_absent: "k \<notin> set (fields_of C) \<Longrightarrow> map_of (dump h C ob) k = None"
  by (simp add: dump_lookup)

lemma dump_lower_tier_value:
  assumes "k \<in> set (fields_of (lower_tier c))"
  shows "map_of (dump h (lower_tier c) ob) k = map_of (dump h c ob) k"
proof -
  have kc: "k \<in> set (fields_of c)" using assms fields_lower_tier_subset by blast
  have eq: "map_of (schema (lower_tier c)) k = map_of (schema c) k"
    using assms by (rule schema_lower_tier)
  show ?thesis
    using assms kc by (simp add: dump_lookup eq cong: if_cong)
qed

lemma extended_only:
  "set (fields_of ExtendedPerson) - set (fields_of (lower_tier ExtendedPerson)) = {''account_created_ts'', ''alternate_emails''}"
  "set (fields_of ExtendedMailingList) - set (fields_of (lower_tier ExtendedMailingList)) = {''moderators'', ''subscribers''}"
  by (auto simp: lower_tier_def fields_of_def schema_def mro_def declared_def)

lemma lower_tier_keys:
  "filter (\<lambda>k. k \<in> set (fields_of (lower_tier c))) (fields_of c) = fields_of (lower_tier c)"
  by (cases c) (simp_all add: lower_tier_def fields_of_def schema_def mro_def declared_def)

lemma dump_lower_tier_keys:
  "wf_obj ob \<Longrightarrow> map fst (dump h (lower_tier (o_cls ob)) ob) = fields_of (lower_tier (o_cls ob))"
  by (simp add: dump_keys wf_obj_def lower_tier_keys)

lemma extended_only_fields_eval:
  "extended_only_fields = [''account_created_ts'', ''alternate_emails'', ''moderators'', ''subscribers'']"
  by (simp add: extended_only_fields_def fields_of_def schema_def mro_def declared_def lower_tier_def)

lemma json_keys_scalar: "json_keys (scalar_json v) = []"
  by (induction v rule: scalar_json.induct) simp_all

lemma has_fallback_scalar: "has_fallback (scalar_json v) = (\<not> scalar_val v)"
  by (induction v rule: scalar_json.induct) (simp_all add: list_ex_iff list_all_iff)

lemma json_keys_flat:
  "(\<And>kv. kv \<in> set kvs \<Longrightarrow> json_keys (snd kv) = []) \<Longrightarrow> json_keys (JObj kvs) = map fst kvs"
  by (induction kvs) simp_all

lemma json_keys_dump_leaf: "set (json_keys (JObj (dump_leaf C ob))) \<subseteq> set (fields_of C)"
proof -
  have "json_keys (JObj (dump_leaf C ob)) = map fst (dump_leaf C ob)"
    by (rule json_keys_flat) (auto simp: dump_leaf_def json_keys_scalar)
  also have "set \<dots> \<subseteq> set (fields_of C)" by (auto simp: dump_leaf_def)
  finally show ?thesis .
qed

lemma has_fallback_dump_leaf:
  assumes "leaf_scalars C ob"
  shows "\<not> has_fallback (JObj (dump_leaf C ob))"
proof -
  have "\<And>kv. kv \<in> set (dump_leaf C ob) \<Longrightarrow> \<not> has_fallback (snd kv)"
    using assms
    by (fastforce simp: dump_leaf_def leaf_scalars_def list_all_iff has_fallback_scalar
        split: if_splits)
  then show ?thesis by (simp add: list_ex_iff)
qed

lemma union_choice_member:
  assumes "list_ex (isinstance c) u"
  shows "union_choice u c \<in> set u"
proof (cases "find (\<lambda>d. d = c) u")
  case (Some d)
  then have "d \<in> set u" by (auto simp: find_Some_iff)
  with Some show ?thesis by (simp add: union_choice_def)
next
  case None
  from assms obtain x where "x \<in> set u" "isinstance c x" by (auto simp: list_ex_iff)
  then have "find (isinstance c) u \<noteq> None" by (auto simp: find_None_iff)
  then obtain d where d: "find (isinstance c) u = Some d" by blast
  then have "d \<in> set u" by (auto simp: find_Some_iff)
  with None d show ?thesis by (simp add: union_choice_def)
qed

lemma ser_item_fallback:
  "item_typed h pick u x \<Longrightarrow> \<not> has_fallback (ser_item h pick x)"
  by (cases x)
     (simp_all add: item_typed_def ser_item_def has_fallback_scalar has_fallback_dump_leaf
        del: has_fallback.simps(2) scalar_json.simps scalar_val.simps)

lemma ser_item_keys:
  "set (json_keys (ser_item h pick x))
     \<subseteq> (case x of VRef b \<Rightarrow> set (fields_of (pick (o_cls (h b)))) | _ \<Rightarrow> {})"
proof (cases x)
  case (VRef b)
  then show ?thesis using json_keys_dump_leaf [of "pick (o_cls (h b))" "h b"]
    by (simp add: ser_item_def del: json_keys.simps(2))
qed (simp_all add: ser_item_def json_keys_scalar del: scalar_json.simps)

lemma schema_nested_safe:
  "(k, AModel C) \<in> set (schema c) \<Longrightarrow> set (fields_of C) \<inter> set extended_only_fields = {}"
  "(k, AModelList C) \<in> set (schema c) \<Longrightarrow> set (fields_of C) \<inter> set extended_only_fields = {}"
  "(k, AUnionList u) \<in> set (schema c) \<Longrightarrow> D \<in> set u \<Longrightarrow>
     set (fields_of D) \<inter> set extended_only_fields = {}"
  by (cases c; auto simp: schema_def mro_def declared_def fields_of_def
        extended_only_fields_eval)+

lemma lower_tier_fields_safe:
  "set (fields_of (lower_tier c)) \<inter> set extended_only_fields = {}"
  by (cases c)
     (simp_all add: lower_tier_def schema_def mro_def declared_def fields_of_def
        extended_only_fields_eval)

lemma item_safe:
  assumes t: "item_typed h pick u x"
    and s: "\<And>b. x = VRef b \<Longrightarrow> set (fields_of (pick (o_cls (h b)))) \<inter> set extended_only_fields = {}"
  shows "\<not> has_fallback (ser_item h pick x)"
    and "set (json_keys (ser_item h pick x)) \<inter> set extended_only_fields = {}"
proof -
  show "\<not> has_fallback (ser_item h pick x)" using t by (rule ser_item_fallback)
  show "set (json_keys (ser_item h pick x)) \<inter> set extended_only_fields = {}"
  proof (cases x)
    case (VRef b)
    with ser_item_keys [of h pick x] s [OF VRef] show ?thesis by auto
  next
    case VNone with ser_item_keys [of h pick x] show ?thesis by simp
  next
    case (VStr z) with ser_item_keys [of h pick x] show ?thesis by simp
  next
    case (VInt z) with ser_item_keys [of h pick x] show ?thesis by simp
  next
    case (VList z) with ser_item_keys [of h pick x] show ?thesis by simp
  qed
qed

lemma items_safe:
  assumes t: "list_all (item_typed h pick u) xs"
    and s: "\<And>b. VRef b \<in> set xs \<Longrightarrow> item_typed h pick u (VRef b) \<Longrightarrow>
              set (fields_of (pick (o_cls (h b)))) \<inter> set extended_only_fields = {}"
  shows "\<not> has_fallback (JList (map (ser_item h pick) xs))"
    and "set (json_keys (JList (map (ser_item h pick) xs))) \<inter> set extended_only_fields = {}"
proof -
  have each: "\<And>x. x \<in> set xs \<Longrightarrow> \<not> has_fallback (ser_item h pick x)
       \<and> set (json_keys (ser_item h pick x)) \<inter> set extended_only_fields = {}"
  proof -
    fix x assume x: "x \<in> set xs"
    with t have tx: "item_typed h pick u x" by (simp add: list_all_iff)
    have "\<And>b. x = VRef b \<Longrightarrow>
        set (fields_of (pick (o_cls (h b)))) \<inter> set extended_only_fields = {}"
      using s x tx by blast
    from item_safe [OF tx this]
    show "\<not> has_fallback (ser_item h pick x)
       \<and> set (json_keys (ser_item h pick x)) \<inter> set extended_only_fields = {}" by blast
  qed
  show "\<not> has_fallback (JList (map (ser_item h pick) xs))"
    using each by (simp add: list_ex_iff)
  show "set (json_keys (JList (map (ser_item h pick) xs))) \<inter> set extended_only_fields = {}"
    using each by auto
qed

lemma scalar_safe:
  "scalar_val v \<Longrightarrow> \<not> has_fallback (scalar_json v)"
  "set (json_keys (scalar_json v)) \<inter> set extended_only_fields = {}"
  by (simp_all add: has_fallback_scalar json_keys_scalar del: scalar_json.simps scalar_val.simps)

lemma ser_field_safe:
  assumes t: "field_typed h a v" and m: "(k, a) \<in> set (schema c)"
  shows "\<not> has_fallback (ser_field h a v)
         \<and> set (json_keys (ser_field h a v)) \<inter> set extended_only_fields = {}"
proof (cases a)
  case AScalar
  with t scalar_safe [of v] show ?thesis by (simp add: field_typed_def ser_field_def)
next
  case (AModel C)
  from t AModel have it: "item_typed h (\<lambda>c. C) [C] v" by (simp add: field_typed_def)
  from m AModel have "set (fields_of C) \<inter> set extended_only_fields = {}"
    using schema_nested_safe(1) by blast
  with item_safe [OF it] AModel show ?thesis by (simp add: ser_field_def)
next
  case (AModelList C)
  from m AModelList have sf: "set (fields_of C) \<inter> set extended_only_fields = {}"
    using schema_nested_safe(2) by blast
  show ?thesis
  proof (cases "\<exists>xs. v = VList xs")
    case True
    then obtain xs where v: "v = VList xs" ..
    with t AModelList have "list_all (item_typed h (\<lambda>c. C) [C]) xs"
      by (simp add: field_typed_def)
    from items_safe [OF this] sf v AModelList show ?thesis by (simp add: ser_field_def)
  next
    case False
    with t AModelList have "scalar_val v" by (cases v) (simp_all add: field_typed_def)
    with scalar_safe [of v] False AModelList show ?thesis
      by (cases v) (simp_all add: ser_field_def del: scalar_json.simps scalar_val.simps)
  qed
next
  case (AUnionList u)
  show ?thesis
  proof (cases "\<exists>xs. v = VList xs")
    case True
    then obtain xs where v: "v = VList xs" ..
    with t AUnionList have la: "list_all (item_typed h (union_choice u) u) xs"
      by (simp add: field_typed_def)
    have "\<And>b. VRef b \<in> set xs \<Longrightarrow> item_typed h (union_choice u) u (VRef b) \<Longrightarrow>
              set (fields_of (union_choice u (o_cls (h b)))) \<inter> set extended_only_fields = {}"
    proof -
      fix b assume "item_typed h (union_choice u) u (VRef b)"
      then have "list_ex (isinstance (o_cls (h b))) u" by (simp add: item_typed_def)
      then have "union_choice u (o_cls (h b)) \<in> set u" by (rule union_choice_member)
      with m AUnionList
      show "set (fields_of (union_choice u (o_cls (h b)))) \<inter> set extended_only_fields = {}"
        using schema_nested_safe(3) by blast
    qed
    from items_safe [OF la this] v AUnionList show ?thesis by (simp add: ser_field_def)
  next
    case False
    with t AUnionList have "scalar_val v" by (cases v) (simp_all add: field_typed_def)
    with scalar_safe [of v] False AUnionList show ?thesis
      by (cases v) (simp_all add: ser_field_def del: scalar_json.simps scalar_val.simps)
  qed
qed

lemma dump_lower_tier_safe:
  assumes wt: "well_typed h ob"
  shows "\<not> has_fallback (JObj (dump h (lower_tier (o_cls ob)) ob))
         \<and> set (json_keys (JObj (dump h (lower_tier (o_cls ob)) ob)))
             \<inter> set extended_only_fields = {}"
proof -
  define C where "C = lower_tier (o_cls ob)"
  have each: "\<And>kv. kv \<in> set (dump h C ob) \<Longrightarrow>
      fst kv \<in> set (fields_of C) \<and> \<not> has_fallback (snd kv)
      \<and> set (json_keys (snd kv)) \<inter> set extended_only_fields = {}"
  proof -
    fix kv assume "kv \<in> set (dump h C ob)"
    then obtain k v where kv: "(k, v) \<in> set (obj_dict ob)" and kC: "k \<in> set (fields_of C)"
      and eq: "kv = (k, if k = ''ref_url'' then JStr (make_ref ob)
                        else ser_field h (case map_of (schema C) k of
                                            Some a \<Rightarrow> a | None \<Rightarrow> AScalar) v)"
      by (auto simp: dump_def)
    from kC obtain a where a: "map_of (schema C) k = Some a"
      by (auto simp: fields_of_def weak_map_of_SomeI [THEN exE] dest!: weak_map_of_SomeI)
    with kC have a': "map_of (schema (o_cls ob)) k = Some a"
      using schema_lower_tier [of k "o_cls ob"] by (simp add: C_def)
    then have mem: "(k, a) \<in> set (schema (o_cls ob))" by (rule map_of_SomeD)
    from wt kv a' have "field_typed h a v"
      by (fastforce simp: well_typed_def list_all_iff)
    from ser_field_safe [OF this mem] a eq kC
    show "fst kv \<in> set (fields_of C) \<and> \<not> has_fallback (snd kv)
      \<and> set (json_keys (snd kv)) \<inter> set extended_only_fields = {}"
      by simp
  qed
  have f: "\<not> has_fallback (JObj (dump h C ob))" using each by (simp add: list_ex_iff)
  have "set (json_keys (JObj (dump h C ob)))
      = fst ` set (dump h C ob) \<union> (\<Union>kv \<in> set (dump h C ob). set (json_keys (snd kv)))"
    by simp
  moreover have "fst ` set (dump h C ob) \<subseteq> set (fields_of C)" using each by auto
  moreover have "(\<Union>kv \<in> set (dump h C ob). set (json_keys (snd kv)))
      \<inter> set extended_only_fields = {}" using each by blast
  moreover have "set (fields_of C) \<inter> set extended_only_fields = {}"
    unfolding C_def by (rule lower_tier_fields_safe)
  ultimately have "set (json_keys (JObj (dump h C ob))) \<inter> set extended_only_fields = {}"
    by blast
  with f show ?thesis by (simp add: C_def)
qed

lemma map_of_filter_key:
  "k \<in> S \<Longrightarrow> map_of (filter (\<lambda>kv. fst kv \<in> S) d) k = map_of d k"
  by (induction d) auto

lemma entry_matches_iff:
  "entry_matches h ob query
     = (\<forall>kv \<in> set query. map_of (dump h (o_cls ob) ob) (fst kv) = Some (JStr (snd kv)))"
  by (auto simp: entry_matches_def Let_def list_all_iff map_of_filter_key)

text \<open>
  C1. At anonymous visibility the lookup answers with exactly this: the error when
  the bucket has no record, the schema in schema mode, and otherwise the envelope of
  all stored records whose rendering meets every constraint of the request's query,
  each serialised as its lower tier (\<open>ExtendedPerson\<close> as \<open>Person\<close>,
  \<open>ExtendedMailingList\<close> as \<open>MailingList\<close>, every other class as itself). In such a
  record a field outside the lower tier is absent, and every field of the lower tier
  has the value it has when the record is serialised as its own class. For a record
  that its class has validated, no Extended-only field name (\<open>account_created_ts\<close>,
  \<open>alternate_emails\<close>, \<open>moderators\<close>, \<open>subscribers\<close>) occurs at any depth of what is
  returned, nested records included, and nothing is left to the serialiser's
  fallback. The serialiser is pydantic's; it is modelled as the comments of
  \<open>collections.py\<close> and \<open>lookup.py\<close> describe it.
\<close>

theorem anonymous_lookup_downgrades:
  assumes anon: "map_of formdata ''anonymous'' = Some v" "v \<noteq> ''??''"
  shows
    "lookup_public type_name uid formdata accepts_html w =
       (let query = request_query uid formdata;
            target = list_items (TStr (lower type_name)) w;
            matched =
              filter (\<lambda>a. \<forall>kv \<in> set query.
                        map_of (dump (heap w) (o_cls (heap w a)) (heap w a)) (fst kv)
                        = Some (JStr (snd kv))) target;
            env = \<lparr>results =
                     map (\<lambda>a. JObj (dump (heap w) (lower_tier (o_cls (heap w a))) (heap w a)))
                       matched,
                   no_results = length matched\<rparr>
        in if target = [] then BadRequest (''No such object type, '' @ lower type_name)
           else if ''schema'' \<in> fst ` set query then SchemaOf ANY_PUBLIC_CLASS
           else if accepts_html then Html env
           else Json env)
     \<and> (\<forall>ob k.
           (k \<notin> set (fields_of (lower_tier (o_cls ob))) \<longrightarrow>
              map_of (dump (heap w) (lower_tier (o_cls ob)) ob) k = None)
         \<and> (k \<in> set (fields_of (lower_tier (o_cls ob))) \<longrightarrow>
              map_of (dump (heap w) (lower_tier (o_cls ob)) ob) k
              = map_of (dump (heap w) (o_cls ob) ob) k)
         \<and> (wf_obj ob \<longrightarrow>
              map fst (dump (heap w) (lower_tier (o_cls ob)) ob)
              = fields_of (lower_tier (o_cls ob))))
     \<and> (\<forall>ob. well_typed (heap w) ob \<longrightarrow>
           \<not> has_fallback (JObj (dump (heap w) (lower_tier (o_cls ob)) ob))
           \<and> set (json_keys (JObj (dump (heap w) (lower_tier (o_cls ob)) ob)))
               \<inter> set extended_only_fields = {})
     \<and> extended_only_fields
         = [''account_created_ts'', ''alternate_emails'', ''moderators'', ''subscribers'']"
proof -
  define query0 where "query0 = (case uid of None \<Rightarrow> formdata
      | Some u \<Rightarrow> if u \<noteq> [] then dict_set ''id'' u formdata else formdata)"
  have q0: "map_of query0 ''anonymous'' = Some v"
    using anon by (auto simp: query0_def map_of_dict_set split: option.splits)
  have rq: "request_query uid formdata = filter (\<lambda>kv. fst kv \<noteq> ''anonymous'') query0"
    by (simp add: request_query_def query0_def)
  have first: "lookup_public type_name uid formdata accepts_html w =
       (let query = request_query uid formdata;
            target = list_items (TStr (lower type_name)) w;
            matched =
              filter (\<lambda>a. \<forall>kv \<in> set query.
                        map_of (dump (heap w) (o_cls (heap w a)) (heap w a)) (fst kv)
                        = Some (JStr (snd kv))) target;
            env = \<lparr>results =
                     map (\<lambda>a. JObj (dump (heap w) (lower_tier (o_cls (heap w a))) (heap w a)))
                       matched,
                   no_results = length matched\<rparr>
        in if target = [] then BadRequest (''No such object type, '' @ lower type_name)
           else if ''schema'' \<in> fst ` set query then SchemaOf ANY_PUBLIC_CLASS
           else if accepts_html then Html env
           else Json env)"
    unfolding rq using q0 anon(2)
    by (simp add: lookup_public_def Let_def query0_def [symmetric] public_choice
        entry_matches_iff)
  have second: "\<forall>ob k.
           (k \<notin> set (fields_of (lower_tier (o_cls ob))) \<longrightarrow>
              map_of (dump (heap w) (lower_tier (o_cls ob)) ob) k = None)
         \<and> (k \<in> set (fields_of (lower_tier (o_cls ob))) \<longrightarrow>
              map_of (dump (heap w) (lower_tier (o_cls ob)) ob) k
              = map_of (dump (heap w) (o_cls ob) ob) k)
         \<and> (wf_obj ob \<longrightarrow>
              map fst (dump (heap w) (lower_tier (o_cls ob)) ob)
              = fields_of (lower_tier (o_cls ob)))"
    by (intro allI conjI impI dump_absent dump_lower_tier_value dump_lower_tier_keys)
  have third: "\<forall>ob. well_typed (heap w) ob \<longrightarrow>
           \<not> has_fallback (JObj (dump (heap w) (lower_tier (o_cls ob)) ob))
           \<and> set (json_keys (JObj (dump (heap w) (lower_tier (o_cls ob)) ob)))
               \<inter> set extended_only_fields = {}"
    using dump_lower_tier_safe by blast
  from first second third extended_only_fields_eval show ?thesis by (intro conjI)
qed

lemma foo_project_public:
  "lookup_public ''project'' None [(''anonymous'', ''1'')] False foo_world = Json \<lparr>results =
         [JObj
           [(''ref_url'', JStr ''https://catalog-test.apache.org/lookup/project/foo''),
            (''id'', JStr ''foo''), (''name'', JStr ''Apache Foo''),
            (''website'', JStr ''https://foo.apache.org''), (''mailinglists'', JList []),
            (''chair'',
             JObj [(''ref_url'', JStr ''https://catalog-test.apache.org/lookup/person/jdoe''),
                   (''id'', JStr ''jdoe''), (''name'', JStr ''Jane Doe'')]),
            (''committers'',
             JList
              [JObj [(''ref_url'', JStr ''https://catalog-test.apache.org/lookup/person/jdoe''),
                     (''id'', JStr ''jdoe''), (''name'', JStr ''Jane Doe'')]]),
            (''pmc_members'',
             JList
              [JObj [(''ref_url'', JStr ''https://catalog-test.apache.org/lookup/person/jdoe''),
                     (''id'', JStr ''jdoe''), (''name'', JStr ''Jane Doe'')]]),
            (''repositories'', JList [])]],
       no_results = 1\<rparr>"
  by code_simp

lemma foo_person_public:
  "lookup_public ''person'' None [(''anonymous'', ''1'')] True foo_world = Html \<lparr>results =
         [JObj
           [(''ref_url'', JStr ''https://catalog-test.apache.org/lookup/person/jdoe''),
            (''id'', JStr ''jdoe''), (''name'', JStr ''Jane Doe''),
            (''primary_email'', JStr ''jdoe@apache.org''),
            (''projects'',
             JList
              [JObj [(''ref_url'', JStr ''https://catalog-test.apache.org/lookup/project/foo''),
                     (''id'', JStr ''foo''), (''name'', JStr ''Apache Foo''),
                     (''website'', JStr ''https://foo.apache.org'')]])]],
       no_results = 1\<rparr>"
  by code_simp

theorem anonymous_lookup_downgrades_witness:
  "map_of [(''anonymous'', ''1'')] ''anonymous'' = Some ''1'' \<and> ''1'' \<noteq> ''??''
   \<and> lookup_public ''project'' None [(''anonymous'', ''1'')] False foo_world = Json \<lparr>results =
         [JObj
           [(''ref_url'', JStr ''https://catalog-test.apache.org/lookup/project/foo''),
            (''id'', JStr ''foo''), (''name'', JStr ''Apache Foo''),
            (''website'', JStr ''https://foo.apache.org''), (''mailinglists'', JList []),
            (''chair'',
             JObj [(''ref_url'', JStr ''https://catalog-test.apache.org/lookup/person/jdoe''),
                   (''id'', JStr ''jdoe''), (''name'', JStr ''Jane Doe'')]),
            (''committers'',
             JList
              [JObj [(''ref_url'', JStr ''https://catalog-test.apache.org/lookup/person/jdoe''),
                     (''id'', JStr ''jdoe''), (''name'', JStr ''Jane Doe'')]]),
            (''pmc_members'',
             JList
              [JObj [(''ref_url'', JStr ''https://catalog-test.apache.org/lookup/person/jdoe''),
                     (''id'', JStr ''jdoe''), (''name'', JStr ''Jane Doe'')]]),
            (''repositories'', JList [])]],
       no_results = 1\<rparr>
   \<and> well_typed (heap foo_world) (heap foo_world 1)
   \<and> \<not> has_fallback (JObj (dump (heap foo_world) (lower_tier (o_cls (heap foo_world 1)))
                            (heap foo_world 1)))
   \<and> set (json_keys (JObj (dump (heap foo_world) (lower_tier (o_cls (heap foo_world 1)))
                            (heap foo_world 1))))
       \<inter> set extended_only_fields = {}"
proof -
  have a1: "map_of [(''anonymous'', ''1'')] ''anonymous'' = Some ''1''" by simp
  have a2: "''1'' \<noteq> ''??''" by simp
  have wt: "well_typed (heap foo_world) (heap foo_world 1)" by code_simp
  note t = anonymous_lookup_downgrades [OF a1 a2, of "''project''" None False foo_world]
  from t wt have safe:
    "\<not> has_fallback (JObj (dump (heap foo_world) (lower_tier (o_cls (heap foo_world 1)))
                            (heap foo_world 1)))
     \<and> set (json_keys (JObj (dump (heap foo_world) (lower_tier (o_cls (heap foo_world 1)))
                            (heap foo_world 1))))
       \<inter> set extended_only_fields = {}"
    by blast
  from a1 a2 foo_project_public wt safe show ?thesis by (intro conjI) blast+
qed

lemma jdoe_public:
  "lookup_public ''person'' None [(''anonymous'', ''1'')] False jdoe_world =
     Json \<lparr>results = [JObj [(''ref_url'', JStr ''https://catalog-test.apache.org/lookup/person/jdoe''),
                             (''id'', JStr ''jdoe''), (''name'', JStr ''Jane Doe''),
                             (''primary_email'', JStr ''jdoe@apache.org''), (''projects'', JList [])]],
            no_results = 1\<rparr>"
  by code_simp

lemma jdoe_full_lookup:
  "lookup_public ''person'' None [] False jdoe_world =
     Json \<lparr>results = [JObj [(''ref_url'', JStr ''https://catalog-test.apache.org/lookup/person/jdoe''),
                             (''id'', JStr ''jdoe''), (''name'', JStr ''Jane Doe''),
                             (''primary_email'', JStr ''jdoe@apache.org''), (''projects'', JList []),
                             (''account_created_ts'', JInt 1700000000), (''alternate_emails'', JNull)]],
            no_results = 1\<rparr>"
  by code_simp

text \<open>
  C2. The claim fails for a type whose bucket exists and holds no record: after
  \<open>replace("person", [])\<close> the lookup of \<open>person\<close> answers "No such object type".
\<close>

theorem empty_bucket_counterexample:
  "cache empty_person_world ''person'' = Some []
   \<and> lookup_public ''person'' None [] False empty_person_world
       = BadRequest ''No such object type, person''"
  by code_simp

text \<open>
  C9. \<open>get\<close> and \<open>get_all\<close> read a constraint's field with \<open>getattr\<close>: a constraint on a
  field the record does not have raises \<open>AttributeError\<close>. The lookup route, which
  compares against \<open>entry.dict(...).get(k)\<close>, treats the same constraint as no match.
\<close>

theorem get_unknown_field_raises:
  "get (TStr ''person'') [(''website'', VStr ''x'')] jdoe_world = Inl AttributeError
   \<and> get_all (TStr ''person'') [(''website'', VStr ''x'')] jdoe_world = Inl AttributeError
   \<and> lookup_public ''person'' None [(''website'', ''x'')] False jdoe_world
       = Json \<lparr>results = [], no_results = 0\<rparr>"
  by code_simp

lemma list_items_empty_iff:
  "list_items (TStr s) w = [] \<longleftrightarrow> (cache w s = None \<or> cache w s = Some [])"
  by (cases "cache w s") (simp_all add: list_items_def)

lemma lookup_public_cases:
  "list_items (TStr (lower type_name)) w = [] \<Longrightarrow>
     lookup_public type_name uid formdata accepts_html w
       = BadRequest (''No such object type, '' @ lower type_name)"
  "list_items (TStr (lower type_name)) w \<noteq> [] \<Longrightarrow>
     (\<exists>u. lookup_public type_name uid formdata accepts_html w = SchemaOf u)
     \<or> (\<exists>env. (lookup_public type_name uid formdata accepts_html w = Html env
                \<or> lookup_public type_name uid formdata accepts_html w = Json env)
              \<and> no_results env = length (results env)
              \<and> length (results env) \<le> length (list_items (TStr (lower type_name)) w))"
  by (simp_all add: lookup_public_def Let_def)

text \<open>
  C2, amended. For a type name without an \<open>Extended\<close> prefix, the lookup answers
  "No such object type" exactly when the store has no bucket under the lower-cased
  name or that bucket is empty; when the bucket holds at least one record the answer
  is the schema or an envelope whose count is the number of its results, possibly
  zero.
\<close>

theorem lookup_error_iff_no_records:
  assumes "shorthand (TStr type_name) = lower type_name"
  shows "(lookup_public type_name uid formdata accepts_html w
            = BadRequest (''No such object type, '' @ lower type_name))
         = (cache w (lower type_name) = None \<or> cache w (lower type_name) = Some [])
       \<and> ((\<exists>b. cache w (lower type_name) = Some b \<and> b \<noteq> []) \<longrightarrow>
            (\<exists>u. lookup_public type_name uid formdata accepts_html w = SchemaOf u)
            \<or> (\<exists>env. (lookup_public type_name uid formdata accepts_html w = Html env
                       \<or> lookup_public type_name uid formdata accepts_html w = Json env)
                     \<and> no_results env = length (results env)
                     \<and> length (results env) \<le> length (list_items (TStr (lower type_name)) w)))"
proof (cases "list_items (TStr (lower type_name)) w = []")
  case True
  note bad = lookup_public_cases(1) [OF True, of uid formdata accepts_html]
  from True have e: "cache w (lower type_name) = None \<or> cache w (lower type_name) = Some []"
    by (simp add: list_items_empty_iff)
  from bad e show ?thesis by auto
next
  case False
  note ok = lookup_public_cases(2) [OF False, of uid formdata accepts_html]
  from False have ne: "\<not> (cache w (lower type_name) = None \<or> cache w (lower type_name) = Some [])"
    by (simp add: list_items_empty_iff)
  have nb: "lookup_public type_name uid formdata accepts_html w
              \<noteq> BadRequest (''No such object type, '' @ lower type_name)"
    using ok by auto
  from ok ne nb show ?thesis by blast
qed

theorem lookup_error_iff_no_records_witness:
  "shorthand (TStr ''Person'') = lower ''Person''
   \<and> lookup_public ''Person'' None [] False jdoe_world
       \<noteq> BadRequest (''No such object type, '' @ lower ''Person'')
   \<and> lookup_public ''Person'' None [] False empty_person_world
       = BadRequest (''No such object type, '' @ lower ''Person'')"
proof -
  have s: "shorthand (TStr ''Person'') = lower ''Person''" by code_simp
  have c1: "cache jdoe_world (lower ''Person'') = Some [(''jdoe'', 0)]" by code_simp
  have c2: "cache empty_person_world (lower ''Person'') = Some []" by code_simp
  note t1 = lookup_error_iff_no_records [OF s, of None "[]" False jdoe_world]
  note t2 = lookup_error_iff_no_records [OF s, of None "[]" False empty_person_world]
  from t1 c1 have n1: "lookup_public ''Person'' None [] False jdoe_world
       \<noteq> BadRequest (''No such object type, '' @ lower ''Person'')" by simp
  from t2 c2 have n2: "lookup_public ''Person'' None [] False empty_person_world
       = BadRequest (''No such object type, '' @ lower ''Person'')" by simp
  from s n1 n2 show ?thesis by blast
qed

section \<open>Properties of the collector\<close>

text \<open>
  C5. A member reference that resolves to no person is not skipped. With \<open>jdoe\<close> the
  only person, the projects \<open>abc\<close> (member \<open>jdoe\<close>), \<open>foo\<close> (member \<open>ghost\<close>) and \<open>zed\<close>
  are processed in this order: \<open>None\<close> is appended to the committers of \<open>foo\<close>,
  \<open>None.projects\<close> raises \<open>AttributeError\<close>, and the pass ends there with only \<open>abc\<close>
  committed.
\<close>

theorem unresolved_reference_aborts_pass:
  "error_of (find_projects
       [[(''cn'', [''zed'']), (''owner'', [''jdoe''])],
        [(''cn'', [''abc'']), (''member'', [''jdoe''])],
        [(''cn'', [''foo'']), (''member'', [''ghost''])]] jdoe_world) = Some AttributeError
   \<and> cache (world_of (find_projects
       [[(''cn'', [''zed'']), (''owner'', [''jdoe''])],
        [(''cn'', [''abc'']), (''member'', [''jdoe''])],
        [(''cn'', [''foo'']), (''member'', [''ghost''])]] jdoe_world)) ''project''
       = Some [(''abc'', 1)]
   \<and> getattr (heap (world_of (find_projects
       [[(''cn'', [''zed'']), (''owner'', [''jdoe''])],
        [(''cn'', [''abc'']), (''member'', [''jdoe''])],
        [(''cn'', [''foo'']), (''member'', [''ghost''])]] jdoe_world)) 2) ''committers''
       = Inr (VList [VNone])"
  by code_simp

text \<open>
  C6. Two member references with the same short id put the person into the
  project's committers twice; only the person's project list is guarded against a
  second entry.
\<close>

theorem repeated_member_is_listed_twice:
  "error_of (find_projects
       [[(''cn'', [''foo'']),
         (''member'', [''jdoe'', ''uid=jdoe,ou=people,dc=apache,dc=org''])]] jdoe_world) = None
   \<and> getattr (heap (world_of (find_projects
       [[(''cn'', [''foo'']),
         (''member'', [''jdoe'', ''uid=jdoe,ou=people,dc=apache,dc=org''])]] jdoe_world)) 1)
         ''committers'' = Inr (VList [VRef 0, VRef 0])
   \<and> getattr (heap (world_of (find_projects
       [[(''cn'', [''foo'']),
         (''member'', [''jdoe'', ''uid=jdoe,ou=people,dc=apache,dc=org''])]] jdoe_world)) 0)
         ''projects'' = Inr (VList [VRef 1])"
  by code_simp

text \<open>
  C7. The claim fails for an owner reference whose short id is empty: the project has
  an owner reference and is committed without a chair.
\<close>

theorem empty_owner_reference_counterexample:
  "refs_of [(''cn'', [''foo'']), (''owner'', [''''])] ''owner'' = ['''']
   \<and> error_of (find_projects [[(''cn'', [''foo'']), (''owner'', [''''])]] jdoe_world) = None
   \<and> cache (world_of (find_projects [[(''cn'', [''foo'']), (''owner'', [''''])]] jdoe_world))
        ''project'' = Some [(''foo'', 1)]
   \<and> getattr (heap (world_of (find_projects [[(''cn'', [''foo'']), (''owner'', [''''])]]
        jdoe_world)) 1) ''chair'' = Inr VNone"
  by code_simp

lemma getattr_set_attr:
  assumes "k \<noteq> ''ref_url''" "k \<noteq> ''id''"
  shows "getattr (heap (set_attr a k v w) b) k' =
           (if b = a \<and> k' = k then Inr v else getattr (heap w b) k')"
  using assms by (simp add: set_attr_def getattr_def obj_dict_def map_of_dict_set)

lemma set_attr_others:
  "cache (set_attr a k v w) = cache w" "next_addr (set_attr a k v w) = next_addr w"
  by (simp_all add: set_attr_def)

lemma getattr_list_not_fixed:
  "getattr ob k = Inr (VList xs) \<Longrightarrow> k \<noteq> ''ref_url'' \<and> k \<noteq> ''id''"
  by (auto simp: getattr_def obj_dict_def split: option.splits if_splits)

lemma attr_append_Ok:
  assumes "attr_append a k v w = Ok u w'"
  shows "\<exists>xs. getattr (heap w a) k = Inr (VList xs)
           \<and> w' = set_attr a k (VList (xs @ [v])) w
           \<and> k \<noteq> ''ref_url'' \<and> k \<noteq> ''id''"
  using assms getattr_list_not_fixed
  by (auto simp: attr_append_def split: sum.splits val.splits)

lemma attr_append_frame:
  assumes "attr_append a k v w = Ok u w'"
  shows "cache w' = cache w" "next_addr w' = next_addr w"
    "\<And>b k'. (b, k') \<noteq> (a, k) \<Longrightarrow> getattr (heap w' b) k' = getattr (heap w b) k'"
    "\<And>xs. getattr (heap w a) k = Inr (VList xs) \<Longrightarrow>
           getattr (heap w' a) k = Inr (VList (xs @ [v]))"
proof -
  from attr_append_Ok [OF assms] obtain xs where
    g: "getattr (heap w a) k = Inr (VList xs)"
    and w': "w' = set_attr a k (VList (xs @ [v])) w"
    and k: "k \<noteq> ''ref_url''" "k \<noteq> ''id''" by blast
  show "cache w' = cache w" "next_addr w' = next_addr w"
    by (simp_all add: w' set_attr_others)
  show "\<And>b k'. (b, k') \<noteq> (a, k) \<Longrightarrow> getattr (heap w' b) k' = getattr (heap w b) k'"
    using k by (auto simp: w' getattr_set_attr)
  show "\<And>ys. getattr (heap w a) k = Inr (VList ys) \<Longrightarrow>
           getattr (heap w' a) k = Inr (VList (ys @ [v]))"
    using k g by (simp add: w' getattr_set_attr)
qed

lemma get_id_only:
  "cache w' (shorthand t) = cache w (shorthand t) \<Longrightarrow>
   get t [(''id'', v)] w' = get t [(''id'', v)] w"
  by (simp add: get_def)

lemma link_Ok_cases:
  assumes "link P fld asfid w = Ok a w'"
  shows "\<exists>u w1. get (TStr ''person'') [(''id'', VStr asfid)] w = Inr (Some a)
           \<and> attr_append P fld (VRef a) w = Ok u w1
           \<and> (w' = w1 \<or> (\<exists>u2. attr_append a ''projects'' (VRef P) w1 = Ok u2 w'))"
  using assms
  by (auto simp: link_def split: sum.splits option.splits res.splits val.splits bool.splits)

lemma link_Ok:
  assumes "link P fld asfid w = Ok a w'" "fld \<noteq> ''projects''"
  shows "get (TStr ''person'') [(''id'', VStr asfid)] w = Inr (Some a)"
    "cache w' = cache w" "next_addr w' = next_addr w"
    "\<And>b k. k \<noteq> ''projects'' \<Longrightarrow> (b, k) \<noteq> (P, fld) \<Longrightarrow>
        getattr (heap w' b) k = getattr (heap w b) k"
    "\<And>xs. getattr (heap w P) fld = Inr (VList xs) \<Longrightarrow>
        getattr (heap w' P) fld = Inr (VList (xs @ [VRef a]))"
proof -
  from link_Ok_cases [OF assms(1)] obtain u w1 where
    g: "get (TStr ''person'') [(''id'', VStr asfid)] w = Inr (Some a)"
    and ap: "attr_append P fld (VRef a) w = Ok u w1"
    and fin: "w' = w1 \<or> (\<exists>u2. attr_append a ''projects'' (VRef P) w1 = Ok u2 w')"
    by blast
  note f1 = attr_append_frame [OF ap]
  show "get (TStr ''person'') [(''id'', VStr asfid)] w = Inr (Some a)" by (rule g)
  from fin show "cache w' = cache w"
  proof
    assume "w' = w1" then show ?thesis by (simp add: f1(1))
  next
    assume "\<exists>u2. attr_append a ''projects'' (VRef P) w1 = Ok u2 w'"
    then obtain u2 where "attr_append a ''projects'' (VRef P) w1 = Ok u2 w'" ..
    from attr_append_frame(1) [OF this] show ?thesis by (simp add: f1(1))
  qed
  from fin show "next_addr w' = next_addr w"
  proof
    assume "w' = w1" then show ?thesis by (simp add: f1(2))
  next
    assume "\<exists>u2. attr_append a ''projects'' (VRef P) w1 = Ok u2 w'"
    then obtain u2 where "attr_append a ''projects'' (VRef P) w1 = Ok u2 w'" ..
    from attr_append_frame(2) [OF this] show ?thesis by (simp add: f1(2))
  qed
  have step2: "\<And>b k. k \<noteq> ''projects'' \<Longrightarrow> getattr (heap w' b) k = getattr (heap w1 b) k"
  proof -
    fix b k assume k: "k \<noteq> ''projects''"
    from fin show "getattr (heap w' b) k = getattr (heap w1 b) k"
    proof
      assume "w' = w1" then show ?thesis by simp
    next
      assume "\<exists>u2. attr_append a ''projects'' (VRef P) w1 = Ok u2 w'"
      then obtain u2 where "attr_append a ''projects'' (VRef P) w1 = Ok u2 w'" ..
      from attr_append_frame(3) [OF this, of b k] k show ?thesis by simp
    qed
  qed
  show "\<And>b k. k \<noteq> ''projects'' \<Longrightarrow> (b, k) \<noteq> (P, fld) \<Longrightarrow>
        getattr (heap w' b) k = getattr (heap w b) k"
    using step2 f1(3) by simp
  show "\<And>xs. getattr (heap w P) fld = Inr (VList xs) \<Longrightarrow>
        getattr (heap w' P) fld = Inr (VList (xs @ [VRef a]))"
    using step2 [OF assms(2)] f1(4) by simp
qed

lemma members_loop_Ok:
  "members_loop P uids w = Ok u w' \<Longrightarrow>
     cache w' = cache w \<and> next_addr w' = next_addr w
     \<and> (\<forall>b k. k \<noteq> ''projects'' \<longrightarrow> (b, k) \<noteq> (P, ''committers'') \<longrightarrow>
            getattr (heap w' b) k = getattr (heap w b) k)"
proof (induction uids arbitrary: w)
  case Nil
  then show ?case by simp
next
  case (Cons uid uids)
  show ?case
  proof (cases "short_uid uid = []")
    case True
    with Cons.prems have "members_loop P uids w = Ok u w'" by simp
    from Cons.IH [OF this] show ?thesis .
  next
    case False
    with Cons.prems obtain a w1 where
      l: "link P ''committers'' (short_uid uid) w = Ok a w1"
      and r: "members_loop P uids w1 = Ok u w'"
      by (auto simp: Let_def split: res.splits)
    have ne: "''committers'' \<noteq> ''projects''" by simp
    note L = link_Ok [OF l ne]
    from Cons.IH [OF r] L(2) L(3) L(4) show ?thesis by simp
  qed
qed

lemma owners_loop_Ok:
  "owners_loop P uids fp w = Ok fp' w' \<Longrightarrow>
     cache w' = cache w \<and> next_addr w' = next_addr w
     \<and> (\<forall>b k. k \<noteq> ''projects'' \<longrightarrow> (b, k) \<noteq> (P, ''pmc_members'') \<longrightarrow>
            getattr (heap w' b) k = getattr (heap w b) k)
     \<and> (\<exists>as. list_all2 (\<lambda>uid a. get (TStr ''person'') [(''id'', VStr uid)] w = Inr (Some a))
                 (filter (\<lambda>s. s \<noteq> []) (map short_uid uids)) as
          \<and> fp' = (case fp of Some f \<Rightarrow> Some f
                     | None \<Rightarrow> (case as of [] \<Rightarrow> None | a # _ \<Rightarrow> Some a))
          \<and> (\<forall>xs. getattr (heap w P) ''pmc_members'' = Inr (VList xs) \<longrightarrow>
                 getattr (heap w' P) ''pmc_members'' = Inr (VList (xs @ map VRef as))))"
proof (induction uids arbitrary: fp w)
  case Nil
  then show ?case by (auto split: option.splits)
next
  case (Cons uid uids)
  show ?case
  proof (cases "short_uid uid = []")
    case True
    with Cons.prems have "owners_loop P uids fp w = Ok fp' w'" by simp
    from Cons.IH [OF this] True show ?thesis by simp
  next
    case False
    with Cons.prems obtain a w1 where
      l: "link P ''pmc_members'' (short_uid uid) w = Ok a w1"
      and r: "owners_loop P uids (if fp = None then Some a else fp) w1 = Ok fp' w'"
      by (auto simp: Let_def split: res.splits)
    have ne: "''pmc_members'' \<noteq> ''projects''" by simp
    note L = link_Ok [OF l ne]
    from Cons.IH [OF r] obtain as where
      c: "cache w' = cache w1" and n: "next_addr w' = next_addr w1"
      and fr: "\<forall>b k. k \<noteq> ''projects'' \<longrightarrow> (b, k) \<noteq> (P, ''pmc_members'') \<longrightarrow>
            getattr (heap w' b) k = getattr (heap w1 b) k"
      and la: "list_all2 (\<lambda>uid a. get (TStr ''person'') [(''id'', VStr uid)] w1 = Inr (Some a))
                 (filter (\<lambda>s. s \<noteq> []) (map short_uid uids)) as"
      and fp': "fp' = (case (if fp = None then Some a else fp) of Some f \<Rightarrow> Some f
                     | None \<Rightarrow> (case as of [] \<Rightarrow> None | a # _ \<Rightarrow> Some a))"
      and pm: "\<forall>xs. getattr (heap w1 P) ''pmc_members'' = Inr (VList xs) \<longrightarrow>
                 getattr (heap w' P) ''pmc_members'' = Inr (VList (xs @ map VRef as))"
      by blast
    have geq: "\<And>v. get (TStr ''person'') [(''id'', v)] w1 = get (TStr ''person'') [(''id'', v)] w"
      by (rule get_id_only) (simp add: L(2))
    have la': "list_all2 (\<lambda>uid a. get (TStr ''person'') [(''id'', VStr uid)] w = Inr (Some a))
                 (filter (\<lambda>s. s \<noteq> []) (map short_uid (uid # uids))) (a # as)"
      using la L(1) False by (simp add: geq)
    have fp'': "fp' = (case fp of Some f \<Rightarrow> Some f
                     | None \<Rightarrow> (case a # as of [] \<Rightarrow> None | a # _ \<Rightarrow> Some a))"
      using fp' by (cases fp) simp_all
    have pm': "\<forall>xs. getattr (heap w P) ''pmc_members'' = Inr (VList xs) \<longrightarrow>
                 getattr (heap w' P) ''pmc_members'' = Inr (VList (xs @ map VRef (a # as)))"
      using pm L(5) by simp
    have fr': "\<forall>b k. k \<noteq> ''projects'' \<longrightarrow> (b, k) \<noteq> (P, ''pmc_members'') \<longrightarrow>
            getattr (heap w' b) k = getattr (heap w b) k"
      using fr L(4) by simp
    from c n L(2) L(3) fr' la' fp'' pm' show ?thesis by (intro conjI exI [of _ "a # as"]) simp_all
  qed
qed

lemma getattr_id: "getattr ob ''id'' = Inr (VStr (o_id ob))"
  by (simp add: getattr_def obj_dict_def)

lemma project_step_cases:
  assumes "project_step result projects w = Ok projects' w'" "map_of result ''cn'' \<noteq> None"
  shows "\<exists>cn u w2 fp w3. item0 result ''cn'' = Inr cn
     \<and> members_loop (next_addr w) (refs_of result ''member'')
          (snd (alloc (new_Project cn (''Apache '' @ capitalize cn)
                         (''https://'' @ cn @ ''.apache.org'')) w)) = Ok u w2
     \<and> owners_loop (next_addr w) (refs_of result ''owner'') None w2 = Ok fp w3
     \<and> projects' = projects @ [next_addr w]
     \<and> replace (TStr ''project'') (Some projects')
          (set_attr (next_addr w) ''chair'' (case fp of None \<Rightarrow> VNone | Some a \<Rightarrow> VRef a) w3)
        = Ok () w'"
  using assms
  by (auto simp: project_step_def Let_def alloc_def split: sum.splits res.splits)

lemma alloc_new_Project:
  "getattr (heap (snd (alloc (new_Project cn nm ws) w)) (next_addr w)) ''pmc_members'' = Inr (VList [])"
  "o_id (heap (snd (alloc (new_Project cn nm ws) w)) (next_addr w)) = cn"
  "cache (snd (alloc ob w)) = cache w"
  "next_addr (snd (alloc ob w)) = Suc (next_addr w)"
  "b \<noteq> next_addr w \<Longrightarrow> heap (snd (alloc ob w)) b = heap w b"
  by (simp_all add: alloc_def new_Project_def getattr_def obj_dict_def)

lemma replace_Ok:
  "replace t (Some rs) w = Ok u w' \<Longrightarrow>
     heap w' = heap w \<and> next_addr w' = next_addr w
     \<and> (\<forall>s. s \<noteq> shorthand t \<longrightarrow> cache w' s = cache w s)
     \<and> cache w' (shorthand t) = Some (dict_of (map (\<lambda>a. (o_id (heap w a), a)) rs))"
  by (auto simp: replace_def)

lemma project_step_Ok:
  assumes st: "project_step result projects w = Ok projects' w'"
    and cn: "map_of result ''cn'' \<noteq> None"
  shows "projects' = projects @ [next_addr w]"
    and "next_addr w' = Suc (next_addr w)"
    and "cache w' ''person'' = cache w ''person''"
    and "\<forall>b k. b \<noteq> next_addr w \<longrightarrow> k \<noteq> ''projects'' \<longrightarrow>
            getattr (heap w' b) k = getattr (heap w b) k"
    and "chair_rule w result (heap w' (next_addr w))"
    and "item0 result ''cn'' = Inr (o_id (heap w' (next_addr w)))"
proof -
  define P where "P = next_addr w"
  from project_step_cases [OF st cn] obtain c u w2 fp w3 where
    i0: "item0 result ''cn'' = Inr c"
    and ml: "members_loop P (refs_of result ''member'')
          (snd (alloc (new_Project c (''Apache '' @ capitalize c)
                         (''https://'' @ c @ ''.apache.org'')) w)) = Ok u w2"
    and ol: "owners_loop P (refs_of result ''owner'') None w2 = Ok fp w3"
    and pj: "projects' = projects @ [P]"
    and rp: "replace (TStr ''project'') (Some projects')
          (set_attr P ''chair'' (case fp of None \<Rightarrow> VNone | Some a \<Rightarrow> VRef a) w3) = Ok () w'"
    unfolding P_def by blast
  define w1 where "w1 = snd (alloc (new_Project c (''Apache '' @ capitalize c)
                         (''https://'' @ c @ ''.apache.org'')) w)"
  define ch where "ch = (case fp of None \<Rightarrow> VNone | Some a \<Rightarrow> VRef a)"
  define w4 where "w4 = set_attr P ''chair'' ch w3"
  have A: "getattr (heap w1 P) ''pmc_members'' = Inr (VList [])" "o_id (heap w1 P) = c"
    unfolding w1_def P_def by (simp_all add: alloc_new_Project)
  have A5: "\<And>b. b \<noteq> P \<Longrightarrow> heap w1 b = heap w b"
    unfolding w1_def P_def by (rule alloc_new_Project(5))
  have A3: "cache w1 = cache w" "next_addr w1 = Suc P"
    unfolding w1_def P_def by (simp_all add: alloc_new_Project)
  from members_loop_Ok [OF ml [folded w1_def]] have
    M: "cache w2 = cache w1" "next_addr w2 = next_addr w1"
      "\<And>b k. k \<noteq> ''projects'' \<Longrightarrow> (b, k) \<noteq> (P, ''committers'') \<Longrightarrow>
            getattr (heap w2 b) k = getattr (heap w1 b) k"
    by simp_all
  from owners_loop_Ok [OF ol] obtain as where
    O: "cache w3 = cache w2" "next_addr w3 = next_addr w2"
      "\<And>b k. k \<noteq> ''projects'' \<Longrightarrow> (b, k) \<noteq> (P, ''pmc_members'') \<Longrightarrow>
            getattr (heap w3 b) k = getattr (heap w2 b) k"
    and la: "list_all2 (\<lambda>uid a. get (TStr ''person'') [(''id'', VStr uid)] w2 = Inr (Some a))
                 (owner_ids result) as"
    and fp: "fp = (case as of [] \<Rightarrow> None | a # _ \<Rightarrow> Some a)"
    and pm: "\<And>xs. getattr (heap w2 P) ''pmc_members'' = Inr (VList xs) \<Longrightarrow>
                 getattr (heap w3 P) ''pmc_members'' = Inr (VList (xs @ map VRef as))"
    unfolding owner_ids_def by auto
  from replace_Ok [OF rp [folded ch_def]] have
    R: "heap w' = heap w4" "next_addr w' = next_addr w4"
       "\<And>s. s \<noteq> shorthand (TStr ''project'') \<Longrightarrow> cache w' s = cache w4 s"
    by (simp_all add: w4_def)
  have S: "\<And>b k. getattr (heap w4 b) k =
             (if b = P \<and> k = ''chair'' then Inr ch else getattr (heap w3 b) k)"
    unfolding w4_def by (rule getattr_set_attr) simp_all
  have S2: "cache w4 = cache w3" "next_addr w4 = next_addr w3"
    unfolding w4_def by (simp_all add: set_attr_others)
  show "projects' = projects @ [next_addr w]" using pj by (simp add: P_def)
  show "next_addr w' = Suc (next_addr w)"
    using R(2) S2(2) O(2) M(2) A3(2) by (simp add: P_def)
  show "cache w' ''person'' = cache w ''person''"
    using R(3) [of "''person''"] S2(1) O(1) M(1) A3(1) by (simp add: shorthand_forms)
  show "\<forall>b k. b \<noteq> next_addr w \<longrightarrow> k \<noteq> ''projects'' \<longrightarrow>
            getattr (heap w' b) k = getattr (heap w b) k"
    using R(1) S O(3) M(3) A5 by (simp add: P_def)
  have geq: "\<And>v. get (TStr ''person'') [(''id'', v)] w2 = get (TStr ''person'') [(''id'', v)] w"
    by (rule get_id_only) (simp add: M(1) A3(1))
  have pm0: "getattr (heap w2 P) ''pmc_members'' = Inr (VList [])"
    using M(3) [of "''pmc_members''" P] A(1) by simp
  have pm3: "getattr (heap w' P) ''pmc_members'' = Inr (VList (map VRef as))"
    using pm [OF pm0] R(1) S by simp
  have chv: "getattr (heap w' P) ''chair'' = Inr ch"
    using R(1) S by simp
  have "chair_rule w result (heap w' P)"
  proof (cases as)
    case Nil
    with la have "owner_ids result = []" by simp
    moreover from Nil fp have "ch = VNone" by (simp add: ch_def)
    ultimately show ?thesis using chv by (simp add: chair_rule_def)
  next
    case (Cons a as')
    with la obtain uid uids where ids: "owner_ids result = uid # uids"
      and g: "get (TStr ''person'') [(''id'', VStr uid)] w2 = Inr (Some a)"
      by (auto simp: list_all2_Cons2)
    from Cons fp have c: "ch = VRef a" by (simp add: ch_def)
    have "VRef a \<in> set (map VRef as)" using Cons by simp
    then show ?thesis
      using ids g [unfolded geq] chv pm3 c by (auto simp: chair_rule_def)
  qed
  then show "chair_rule w result (heap w' (next_addr w))" by (simp add: P_def)
  have "getattr (heap w' P) ''id'' = getattr (heap w1 P) ''id''"
    using R(1) S O(3) M(3) by simp
  then have "o_id (heap w' P) = c" using A(2) by (simp add: getattr_id)
  then show "item0 result ''cn'' = Inr (o_id (heap w' (next_addr w)))"
    using i0 by (simp add: P_def)
qed

lemma chair_rule_world:
  "cache w1 ''person'' = cache w ''person'' \<Longrightarrow> chair_rule w1 r P = chair_rule w r P"
proof -
  assume c: "cache w1 ''person'' = cache w ''person''"
  have "\<And>v. get (TStr ''person'') [(''id'', v)] w1 = get (TStr ''person'') [(''id'', v)] w"
    by (rule get_id_only) (simp add: shorthand_forms c)
  then show ?thesis by (cases "owner_ids r") (simp_all add: chair_rule_def)
qed

lemma chair_rule_obj:
  "getattr P' ''chair'' = getattr P ''chair'' \<Longrightarrow>
   getattr P' ''pmc_members'' = getattr P ''pmc_members'' \<Longrightarrow>
   chair_rule w r P' = chair_rule w r P"
  by (cases "owner_ids r") (simp_all add: chair_rule_def)

lemma projects_loop_Ok:
  "projects_loop rs projects w = Ok projects' w' \<Longrightarrow>
     projects' = projects @ [next_addr w ..< next_addr w + length (filter (\<lambda>r. map_of r ''cn'' \<noteq> None) rs)]
     \<and> next_addr w' = next_addr w + length (filter (\<lambda>r. map_of r ''cn'' \<noteq> None) rs)
     \<and> cache w' ''person'' = cache w ''person''
     \<and> (\<forall>b k. b < next_addr w \<longrightarrow> k \<noteq> ''projects'' \<longrightarrow>
            getattr (heap w' b) k = getattr (heap w b) k)
     \<and> (\<forall>i < length (filter (\<lambda>r. map_of r ''cn'' \<noteq> None) rs).
            chair_rule w (filter (\<lambda>r. map_of r ''cn'' \<noteq> None) rs ! i) (heap w' (next_addr w + i))
            \<and> item0 (filter (\<lambda>r. map_of r ''cn'' \<noteq> None) rs ! i) ''cn''
                = Inr (o_id (heap w' (next_addr w + i))))"
proof (induction rs arbitrary: projects w)
  case Nil
  then show ?case by simp
next
  case (Cons r rs)
  let ?F = "filter (\<lambda>r. map_of r ''cn'' \<noteq> None)"
  from Cons.prems obtain p1 w1 where
    st: "project_step r projects w = Ok p1 w1"
    and lp: "projects_loop rs p1 w1 = Ok projects' w'"
    by (auto split: res.splits)
  note IH = Cons.IH [OF lp]
  show ?case
  proof (cases "map_of r ''cn'' = None")
    case True
    with st have "p1 = projects" "w1 = w" by (simp_all add: project_step_def)
    with IH True show ?thesis by simp
  next
    case False
    note S = project_step_Ok [OF st False]
    define P where "P = next_addr w"
    define n where "n = length (?F rs)"
    have F: "?F (r # rs) = r # ?F rs" using False by simp
    have u: "[P ..< P + Suc n] = P # [Suc P ..< Suc P + n]"
      by (subst upt_conv_Cons) simp_all
    from IH have e1: "projects' = p1 @ [next_addr w1 ..< next_addr w1 + n]"
      unfolding n_def by (rule conjunct1)
    have e2: "p1 = projects @ [P]" using S(1) by (simp add: P_def)
    have e3: "next_addr w1 = Suc P" using S(2) by (simp add: P_def)
    have pr: "projects' = projects @ [P ..< P + Suc n]"
      unfolding e1 e2 e3 u by simp
    have na: "next_addr w' = P + Suc n" using IH S(2) by (simp add: P_def n_def)
    have cp: "cache w' ''person'' = cache w ''person''" using IH S(3) by simp
    have fr1: "\<And>b k. b < Suc P \<Longrightarrow> k \<noteq> ''projects'' \<Longrightarrow>
            getattr (heap w' b) k = getattr (heap w1 b) k"
      using IH S(2) by (simp add: P_def)
    have fr: "\<forall>b k. b < P \<longrightarrow> k \<noteq> ''projects'' \<longrightarrow>
            getattr (heap w' b) k = getattr (heap w b) k"
      using fr1 S(4) by (simp add: P_def)
    have c0: "chair_rule w r (heap w' P)"
      using S(5) chair_rule_obj [of "heap w' P" "heap w1 P" w r] fr1 [of P]
      by (simp add: P_def)
    have i0: "item0 r ''cn'' = Inr (o_id (heap w' P))"
    proof -
      have "getattr (heap w' P) ''id'' = getattr (heap w1 P) ''id''" using fr1 [of P] by simp
      then have "o_id (heap w' P) = o_id (heap w1 P)" by (simp add: getattr_id)
      with S(6) show ?thesis by (simp add: P_def)
    qed
    have rest: "\<forall>i < n. chair_rule w (?F rs ! i) (heap w' (Suc P + i))
            \<and> item0 (?F rs ! i) ''cn'' = Inr (o_id (heap w' (Suc P + i)))"
      using IH S(2) chair_rule_world [OF S(3)] by (simp add: P_def n_def)
    have all: "\<forall>i < Suc n. chair_rule w ((r # ?F rs) ! i) (heap w' (P + i))
            \<and> item0 ((r # ?F rs) ! i) ''cn'' = Inr (o_id (heap w' (P + i)))"
    proof (intro allI impI)
      fix i assume "i < Suc n"
      show "chair_rule w ((r # ?F rs) ! i) (heap w' (P + i))
            \<and> item0 ((r # ?F rs) ! i) ''cn'' = Inr (o_id (heap w' (P + i)))"
      proof (cases i)
        case 0
        with c0 i0 show ?thesis by simp
      next
        case (Suc j)
        with \<open>i < Suc n\<close> have "j < n" by simp
        with rest Suc show ?thesis by simp
      qed
    qed
    have len: "length (r # ?F rs) = Suc n" by (simp add: n_def)
    from pr na cp fr all show ?thesis
      unfolding F len P_def [symmetric] by (intro conjI)
  qed
qed

text \<open>
  C7, amended. In a pass that completes, the projects are built at consecutive
  addresses, one for each sorted result that has a \<open>cn\<close>, and the project bucket
  holds no other object. The project built from a result has that result's \<open>cn\<close> as
  its id; its chair is the person stored under the first owner reference whose short
  id is not empty, and is none when there is no such reference; a chair is an element
  of the project's \<open>pmc_members\<close>.
\<close>

theorem chair_is_first_owner_with_id:
  assumes "find_projects entries w = Ok u w'"
  shows "(\<exists>bucket. cache w' ''project'' = Some bucket
            \<and> snd ` set bucket
                \<subseteq> {next_addr w ..< next_addr w + length (project_entries entries)})
       \<and> (\<forall>i < length (project_entries entries).
             chair_rule w (project_entries entries ! i) (heap w' (next_addr w + i))
             \<and> item0 (project_entries entries ! i) ''cn''
                 = Inr (o_id (heap w' (next_addr w + i))))"
proof -
  from assms obtain projects w1 where
    lp: "projects_loop (sort_key cn_key_of entries) [] w = Ok projects w1"
    and rp: "replace (TStr ''project'') (Some projects) w1 = Ok u w'"
    by (auto simp: find_projects_def split: if_splits res.splits)
  note L = projects_loop_Ok [OF lp, folded project_entries_def]
  note R = replace_Ok [OF rp]
  from L have pr: "projects = [next_addr w ..< next_addr w + length (project_entries entries)]"
    by simp
  from R have b: "cache w' ''project''
      = Some (dict_of (map (\<lambda>a. (o_id (heap w1 a), a)) projects))"
    by (simp add: shorthand_forms)
  have "snd ` set (dict_of (map (\<lambda>a. (o_id (heap w1 a), a)) projects))
          \<subseteq> snd ` set (map (\<lambda>a. (o_id (heap w1 a), a)) projects)"
    using dict_of_subset by (rule image_mono)
  also have "\<dots> = set projects" by (simp add: image_image)
  finally have sub: "snd ` set (dict_of (map (\<lambda>a. (o_id (heap w1 a), a)) projects))
          \<subseteq> {next_addr w ..< next_addr w + length (project_entries entries)}"
    by (simp add: pr)
  from R have h: "heap w' = heap w1" by simp
  from L have "\<forall>i < length (project_entries entries).
             chair_rule w (project_entries entries ! i) (heap w' (next_addr w + i))
             \<and> item0 (project_entries entries ! i) ''cn''
                 = Inr (o_id (heap w' (next_addr w + i)))"
    unfolding h by (elim conjE)
  with b sub show ?thesis by blast
qed

lemma unit_res_Ok: "error_of r = None \<Longrightarrow> r = Ok () (world_of r)"
  by (cases r) (simp_all add: error_of_def world_of_def)

theorem chair_is_first_owner_with_id_witness:
  "find_projects [[(''cn'', [''foo'']), (''owner'', ['''', ''uid=jdoe,ou=people,dc=apache,dc=org''])]] jdoe_world = Ok () (world_of (find_projects [[(''cn'', [''foo'']), (''owner'', ['''', ''uid=jdoe,ou=people,dc=apache,dc=org''])]] jdoe_world))
   \<and> owner_ids (project_entries [[(''cn'', [''foo'']), (''owner'', ['''', ''uid=jdoe,ou=people,dc=apache,dc=org''])]] ! 0) = [''jdoe'']
   \<and> getattr (heap (world_of (find_projects [[(''cn'', [''foo'']), (''owner'', ['''', ''uid=jdoe,ou=people,dc=apache,dc=org''])]] jdoe_world)) 1) ''chair'' = Inr (VRef 0)
   \<and> chair_rule jdoe_world (project_entries [[(''cn'', [''foo'']), (''owner'', ['''', ''uid=jdoe,ou=people,dc=apache,dc=org''])]] ! 0)
        (heap (world_of (find_projects [[(''cn'', [''foo'']), (''owner'', ['''', ''uid=jdoe,ou=people,dc=apache,dc=org''])]] jdoe_world)) (next_addr jdoe_world + 0))"
proof -
  have e: "error_of (find_projects [[(''cn'', [''foo'']), (''owner'', ['''', ''uid=jdoe,ou=people,dc=apache,dc=org''])]] jdoe_world) = None" by code_simp
  have ok: "find_projects [[(''cn'', [''foo'']), (''owner'', ['''', ''uid=jdoe,ou=people,dc=apache,dc=org''])]] jdoe_world = Ok () (world_of (find_projects [[(''cn'', [''foo'']), (''owner'', ['''', ''uid=jdoe,ou=people,dc=apache,dc=org''])]] jdoe_world))"
    using e by (rule unit_res_Ok)
  have l: "0 < length (project_entries [[(''cn'', [''foo'']), (''owner'', ['''', ''uid=jdoe,ou=people,dc=apache,dc=org''])]])" by code_simp
  have o: "owner_ids (project_entries [[(''cn'', [''foo'']), (''owner'', ['''', ''uid=jdoe,ou=people,dc=apache,dc=org''])]] ! 0) = [''jdoe'']" by code_simp
  have c: "getattr (heap (world_of (find_projects [[(''cn'', [''foo'']), (''owner'', ['''', ''uid=jdoe,ou=people,dc=apache,dc=org''])]] jdoe_world)) 1) ''chair'' = Inr (VRef 0)"
    by code_simp
  from chair_is_first_owner_with_id [OF ok] l
  have "chair_rule jdoe_world (project_entries [[(''cn'', [''foo'']), (''owner'', ['''', ''uid=jdoe,ou=people,dc=apache,dc=org''])]] ! 0)
        (heap (world_of (find_projects [[(''cn'', [''foo'']), (''owner'', ['''', ''uid=jdoe,ou=people,dc=apache,dc=org''])]] jdoe_world)) (next_addr jdoe_world + 0))"
    by blast
  with ok o c show ?thesis by (intro conjI)
qed

end
